theory Spec2Isabelle
  imports Main
begin

section \<open>Strings of the host language\<close>

text \<open>
  The parser of \<^verbatim>\<open>src/parser.tsx\<close> works on JavaScript strings. A \<^typ>\<open>char\<close> stands
  for one code unit below 256; the white space of \<^verbatim>\<open>String.prototype.trim\<close> and of the
  regular expression class \<^verbatim>\<open>\s\<close> in that range is TAB, LF, VT, FF, CR, SPACE and NBSP.
\<close>

definition isSpace :: "char \<Rightarrow> bool" where
  "isSpace c = (c \<in> set [CHR 0x09, CHR 0x0A, CHR 0x0B, CHR 0x0C, CHR 0x0D, CHR 0x20, CHR 0xA0])"

definition isDigit :: "char \<Rightarrow> bool" where
  "isDigit c = (c \<in> set ''0123456789'')"

definition trim :: "string \<Rightarrow> string" where
  "trim s = rev (dropWhile isSpace (rev (dropWhile isSpace s)))"

definition startsWith :: "string \<Rightarrow> string \<Rightarrow> bool" where
  "startsWith p s = (take (length p) s = p)"

definition endsWith :: "string \<Rightarrow> string \<Rightarrow> bool" where
  "endsWith p s = (length p \<le> length s \<and> drop (length s - length p) s = p)"

fun includesStr :: "string \<Rightarrow> string \<Rightarrow> bool" where
  "includesStr p [] = (p = [])"
| "includesStr p (c # cs) = (startsWith p (c # cs) \<or> includesStr p cs)"

text \<open>\<^verbatim>\<open>s.split(c)\<close> for a one-character separator.\<close>

fun splitOn :: "char \<Rightarrow> string \<Rightarrow> string list" where
  "splitOn sep [] = [[]]"
| "splitOn sep (c # cs) =
     (if c = sep then [] # splitOn sep cs
      else (case splitOn sep cs of [] \<Rightarrow> [[c]] | p # ps \<Rightarrow> (c # p) # ps))"

text \<open>\<^verbatim>\<open>s.split(/\r\n|\n/)\<close>: a CR directly before an LF belongs to the separator.\<close>

fun splitLines :: "string \<Rightarrow> string list" where
  "splitLines [] = [[]]"
| "splitLines (c # cs) =
     (if c = CHR 0x0A then [] # splitLines cs
      else if c = CHR 0x0D \<and> cs \<noteq> [] \<and> hd cs = CHR 0x0A then [] # splitLines (tl cs)
      else (case splitLines cs of [] \<Rightarrow> [[c]] | p # ps \<Rightarrow> (c # p) # ps))"

text \<open>\<^verbatim>\<open>xs.join(sep)\<close> and \<^verbatim>\<open>xs.slice(1, -1)\<close>.\<close>

fun joinWith :: "string \<Rightarrow> string list \<Rightarrow> string" where
  "joinWith sep [] = []"
| "joinWith sep [x] = x"
| "joinWith sep (x # y # ys) = x @ sep @ joinWith sep (y # ys)"

definition sliceInner :: "'a list \<Rightarrow> 'a list" where
  "sliceInner xs = butlast (drop 1 xs)"

text \<open>Decimal rendering of a non-negative number inside a template literal.\<close>

fun showNat :: "nat \<Rightarrow> string" where
  "showNat n = (if n < 10 then [''0123456789'' ! n] else showNat (n div 10) @ [''0123456789'' ! (n mod 10)])"

declare showNat.simps [simp del]


section \<open>Regular expressions: the backtracking matcher of the host language\<close>

text \<open>
  The matcher follows the continuation semantics of the language standard: a pattern is run
  on a state (the rest of the input and the captures so far) with a continuation, and the
  first success in priority order is the result. \<open>Rep mn mx greedy r\<close> is a quantifier
  (\<open>mx = None\<close>: unbounded); \<open>Cls True xs\<close> is a class, \<open>Cls False xs\<close> a negated class; \<open>Dot\<close>
  excludes line terminators; \<open>Eol\<close> is \<^verbatim>\<open>$\<close>. The anchor \<^verbatim>\<open>^\<close> only occurs at the head of a
  pattern of the source and is expressed by matching at the start of the subject
  (\<open>matchStart\<close>) instead of searching (\<open>search\<close>).
\<close>

datatype citem = Ch char | WS | Dig

datatype re =
    Lit char
  | Dot
  | Cls bool "citem list"
  | Seq re re
  | Alt re re
  | Rep nat "nat option" bool re
  | Grp nat re
  | Eol

type_synonym caps = "nat \<Rightarrow> string option"
type_synonym mstate = "string \<times> caps"
type_synonym cont = "mstate \<Rightarrow> mstate option"

fun inItem :: "char \<Rightarrow> citem \<Rightarrow> bool" where
  "inItem c (Ch a) = (c = a)"
| "inItem c WS = isSpace c"
| "inItem c Dig = isDigit c"

definition inClass :: "bool \<Rightarrow> citem list \<Rightarrow> char \<Rightarrow> bool" where
  "inClass pos xs c = (list_ex (inItem c) xs = pos)"

definition isDot :: "char \<Rightarrow> bool" where
  "isDot c = (c \<noteq> CHR 0x0A \<and> c \<noteq> CHR 0x0D)"

primrec groups :: "re \<Rightarrow> nat list" where
  "groups (Lit a) = []"
| "groups Dot = []"
| "groups (Cls p xs) = []"
| "groups (Seq a b) = groups a @ groups b"
| "groups (Alt a b) = groups a @ groups b"
| "groups (Rep mn mx g r) = groups r"
| "groups (Grp n r) = n # groups r"
| "groups Eol = []"

definition clear :: "nat list \<Rightarrow> mstate \<Rightarrow> mstate" where
  "clear gs x = (fst x, \<lambda>n. if n \<in> set gs then None else snd x n)"

definition oneChar :: "(char \<Rightarrow> bool) \<Rightarrow> mstate \<Rightarrow> cont \<Rightarrow> mstate option" where
  "oneChar p x k = (case fst x of [] \<Rightarrow> None | c # cs \<Rightarrow> if p c then k (cs, snd x) else None)"

text \<open>
  The quantifier: once the minimum is reached an iteration that consumes nothing fails, the
  captures of the body are reset before each iteration, a greedy quantifier tries another
  iteration before the continuation and a lazy one after it. A body never hands on more
  input than it was given; the test on the lengths says so and makes the recursion
  well-founded.
\<close>

function rep :: "(mstate \<Rightarrow> cont \<Rightarrow> mstate option) \<Rightarrow> nat list \<Rightarrow> nat \<Rightarrow> nat option \<Rightarrow> bool
    \<Rightarrow> mstate \<Rightarrow> cont \<Rightarrow> mstate option" where
  "rep f gs mn mx g x k =
    (if mx = Some 0 then k x
     else let d = (\<lambda>y. if length (fst y) < length (fst x) \<or> (0 < mn \<and> length (fst y) = length (fst x))
                         then rep f gs (mn - 1) (map_option (\<lambda>n. n - 1) mx) g y k
                         else None)
          in if 0 < mn then f (clear gs x) d
             else if g then (case f (clear gs x) d of Some z \<Rightarrow> Some z | None \<Rightarrow> k x)
             else (case k x of Some z \<Rightarrow> Some z | None \<Rightarrow> f (clear gs x) d))"
  by pat_completeness auto
termination
  by (relation "measure (\<lambda>(f, gs, mn, mx, g, x, k). length (fst x) + mn)") auto

declare rep.simps [simp del]

primrec matcher :: "re \<Rightarrow> mstate \<Rightarrow> cont \<Rightarrow> mstate option" where
  "matcher (Lit a) x k = oneChar (\<lambda>c. c = a) x k"
| "matcher Dot x k = oneChar isDot x k"
| "matcher (Cls p xs) x k = oneChar (inClass p xs) x k"
| "matcher (Seq a b) x k = matcher a x (\<lambda>y. matcher b y k)"
| "matcher (Alt a b) x k = (case matcher a x k of Some z \<Rightarrow> Some z | None \<Rightarrow> matcher b x k)"
| "matcher (Rep mn mx g r) x k = rep (matcher r) (groups r) mn mx g x k"
| "matcher (Grp n r) x k =
     matcher r x (\<lambda>y. k (fst y, (snd y)(n := Some (take (length (fst x) - length (fst y)) (fst x)))))"
| "matcher Eol x k = (if fst x = [] then k x else None)"

text \<open>A match at the start of the subject: the rest of the subject and the captures.\<close>

definition matchStart :: "re \<Rightarrow> string \<Rightarrow> mstate option" where
  "matchStart r s = matcher r (s, \<lambda>_. None) Some"

text \<open>The leftmost match: the text before it, the rest after it and the captures.\<close>

fun search :: "re \<Rightarrow> string \<Rightarrow> (string \<times> string \<times> caps) option" where
  "search r [] = (case matchStart r [] of Some (rest, c) \<Rightarrow> Some ([], rest, c) | None \<Rightarrow> None)"
| "search r (a # s) =
     (case matchStart r (a # s) of
        Some (rest, c) \<Rightarrow> Some ([], rest, c)
      | None \<Rightarrow> (case search r s of Some (p, rest, c) \<Rightarrow> Some (a # p, rest, c) | None \<Rightarrow> None))"

text \<open>\<^verbatim>\<open>s.replace(/^r/, f)\<close> and \<^verbatim>\<open>s.replace(/r/, f)\<close>: the first match only.\<close>

definition replaceStart :: "re \<Rightarrow> (caps \<Rightarrow> string) \<Rightarrow> string \<Rightarrow> string" where
  "replaceStart r f s = (case matchStart r s of Some (rest, c) \<Rightarrow> f c @ rest | None \<Rightarrow> s)"

definition replaceFirst :: "re \<Rightarrow> (caps \<Rightarrow> string) \<Rightarrow> string \<Rightarrow> string" where
  "replaceFirst r f s = (case search r s of Some (p, rest, c) \<Rightarrow> p @ f c @ rest | None \<Rightarrow> s)"

text \<open>
  \<^verbatim>\<open>s.replace(/r/g, f)\<close>: every match from left to right, the search resuming after each
  match (one character further after an empty match).
\<close>

function replaceAll :: "re \<Rightarrow> (caps \<Rightarrow> string) \<Rightarrow> string \<Rightarrow> string" where
  "replaceAll r f [] = (case matchStart r [] of Some (rest, c) \<Rightarrow> f c | None \<Rightarrow> [])"
| "replaceAll r f (a # s) =
     (case matchStart r (a # s) of
        Some (rest, c) \<Rightarrow>
          if length rest < length (a # s) then f c @ replaceAll r f rest
          else f c @ a # replaceAll r f s
      | None \<Rightarrow> a # replaceAll r f s)"
  by pat_completeness auto
termination
  by (relation "measure (\<lambda>(r, f, s). length s)") auto

text \<open>Shorthands for the pattern syntax.\<close>

definition many0 :: "re \<Rightarrow> re" where "many0 r = Rep 0 None True r"
definition many1 :: "re \<Rightarrow> re" where "many1 r = Rep 1 None True r"
definition lazyPlus :: "re \<Rightarrow> re" where "lazyPlus r = Rep 1 None False r"
definition opt :: "re \<Rightarrow> re" where "opt r = Rep 0 (Some 1) True r"
definition space :: re where "space = Cls True [WS]"

fun seqs :: "re list \<Rightarrow> re" where
  "seqs [] = Rep 0 (Some 0) True Dot"
| "seqs [r] = r"
| "seqs (r # rs) = Seq r (seqs rs)"

definition lits :: "string \<Rightarrow> re" where
  "lits s = seqs (map Lit s)"

definition cap :: "nat \<Rightarrow> caps \<Rightarrow> string" where
  "cap n c = (case c n of Some s \<Rightarrow> s | None \<Rightarrow> [])"


section \<open>Options, attributes and nodes\<close>

text \<open>
  \<open>ParseOptions\<close> after the defaults of the destructuring at the head of \<open>parse\<close> have been
  applied. \<open>maxNestingLevel\<close> is a number of the host language; the integers are modelled.
\<close>

datatype ElementType =
  headings | paragraphs | lists | blockquotes | codeBlocks | tables | links | images

datatype LinkTarget = Blank | Self | Parent | Top

type_synonym css = "(string \<times> string) list"

record ParseOptions =
  langPrefix :: string
  customClasses :: "ElementType \<Rightarrow> string option"
  customStyles :: "ElementType \<Rightarrow> css option"
  linkTarget :: LinkTarget
  sanitizeHtml :: bool
  maxNestingLevel :: int

definition defaultOptions :: ParseOptions where
  "defaultOptions = \<lparr> langPrefix = ''language-'', customClasses = (\<lambda>_. None),
     customStyles = (\<lambda>_. None), linkTarget = Blank, sanitizeHtml = True, maxNestingLevel = 6 \<rparr>"

fun targetName :: "LinkTarget \<Rightarrow> string" where
  "targetName Blank = ''_blank''"
| "targetName Self = ''_self''"
| "targetName Parent = ''_parent''"
| "targetName Top = ''_top''"

text \<open>Property values and objects with their keys in insertion order.\<close>

datatype jsval = Undefined | Str string | StyleObj css

type_synonym jsobj = "(string \<times> jsval) list"

definition objGet :: "jsobj \<Rightarrow> string \<Rightarrow> jsval" where
  "objGet obj k = (case map_of obj k of Some v \<Rightarrow> v | None \<Rightarrow> Undefined)"

fun objSet :: "string \<Rightarrow> jsval \<Rightarrow> jsobj \<Rightarrow> jsobj" where
  "objSet k v [] = [(k, v)]"
| "objSet k v ((k', v') # obj) = (if k' = k then (k, v) # obj else (k', v') # objSet k v obj)"

definition truthy :: "jsval \<Rightarrow> bool" where
  "truthy v = (case v of Undefined \<Rightarrow> False | Str s \<Rightarrow> s \<noteq> [] | StyleObj _ \<Rightarrow> True)"

text \<open>\<^verbatim>\<open>{...a, ...b}\<close> on style objects, and the rendering of a value in a template literal.\<close>

definition spreadCss :: "css \<Rightarrow> css \<Rightarrow> css" where
  "spreadCss a b = fold (\<lambda>(k, v) acc. map (\<lambda>(k', v'). (k', if k' = k then v else v')) acc
                                      @ (if k \<in> fst ` set acc then [] else [(k, v)])) b a"

definition cssOf :: "jsval \<Rightarrow> css" where
  "cssOf v = (case v of StyleObj c \<Rightarrow> c | _ \<Rightarrow> [])"

definition render :: "jsval \<Rightarrow> string" where
  "render v = (case v of Undefined \<Rightarrow> ''undefined'' | Str s \<Rightarrow> s | StyleObj _ \<Rightarrow> ''[object Object]'')"

text \<open>\<open>getElementProperties\<close> (parser.tsx, lines 123-143).\<close>

definition getElementProperties :: "ParseOptions \<Rightarrow> ElementType \<Rightarrow> jsobj \<Rightarrow> jsobj" where
  "getElementProperties opts elementType additionalProps =
    (let style = spreadCss (case customStyles opts elementType of Some c \<Rightarrow> c | None \<Rightarrow> [])
                           (cssOf (objGet additionalProps ''style''));
         className =
           (case customClasses opts elementType of
              Some cls \<Rightarrow>
                if cls \<noteq> [] then
                  Str (cls @ (if truthy (objGet additionalProps ''className'')
                              then '' '' @ render (objGet additionalProps ''className'') else []))
                else objGet additionalProps ''className''
            | None \<Rightarrow> objGet additionalProps ''className'')
     in objSet ''className'' (if truthy className then className else Undefined)
          (objSet ''style'' (if style \<noteq> [] then StyleObj style else Undefined) additionalProps))"

datatype align = ALeft | ACenter | ARight

text \<open>
  The elements pushed to \<open>html\<close>. The first field is the line index of the element's key
  (\<^verbatim>\<open>error-i\<close>, \<^verbatim>\<open>dl-i\<close>, \<^verbatim>\<open>task-i\<close>, \<^verbatim>\<open>h-i\<close>, \<^verbatim>\<open>code-i\<close>, \<^verbatim>\<open>quote-i\<close>, \<^verbatim>\<open>table-i\<close>, \<^verbatim>\<open>img-i\<close>, \<^verbatim>\<open>list-i\<close>,
  \<^verbatim>\<open>p-i\<close>).
\<close>

datatype node =
    ErrorP nat string
      \<comment> \<open>\<^verbatim>\<open><p>\<close> with a text child\<close>
  | DefinitionList nat jsobj string "string list"
      \<comment> \<open>\<^verbatim>\<open><dl>\<close>: properties, the text of \<^verbatim>\<open><dt>\<close>, the texts of the \<^verbatim>\<open><dd>\<close>\<close>
  | TaskItem nat jsobj bool string
      \<comment> \<open>\<^verbatim>\<open><div>\<close>: properties, \<open>checked\<close> of the checkbox, the text of \<^verbatim>\<open><span>\<close>\<close>
  | Heading nat nat jsval jsobj string
      \<comment> \<open>\<^verbatim>\<open><hN>\<close>: level \<open>N\<close>, \<open>id\<close>, properties, text\<close>
  | CodeBlock nat jsobj jsval string
      \<comment> \<open>\<^verbatim>\<open><pre>\<close>: properties, \<open>className\<close> of \<^verbatim>\<open><code>\<close>, the code\<close>
  | Blockquote nat jsobj string jsval
      \<comment> \<open>\<^verbatim>\<open><blockquote>\<close>: properties, text, citation of \<^verbatim>\<open><footer>\<close>\<close>
  | Table nat jsobj "(align \<times> string) list" "(align \<times> string) list list"
      \<comment> \<open>\<^verbatim>\<open><table>\<close>: properties, the \<^verbatim>\<open><th>\<close> cells, the rows of \<^verbatim>\<open><td>\<close> cells\<close>
  | Image nat jsobj
      \<comment> \<open>\<^verbatim>\<open><img>\<close>: \<open>src\<close>, \<open>alt\<close>, \<open>title\<close> and the element properties\<close>
  | ListNode nat bool jsobj string
      \<comment> \<open>\<^verbatim>\<open><ol>\<close> (\<open>True\<close>) or \<^verbatim>\<open><ul>\<close>: properties, the text of its \<^verbatim>\<open><li>\<close>\<close>
  | Paragraph nat jsobj string
      \<comment> \<open>\<^verbatim>\<open><p>\<close>: properties, the \<^verbatim>\<open>__html\<close> of its \<^verbatim>\<open><span>\<close>\<close>


section \<open>The inline formatter\<close>

definition dq :: char where "dq = CHR 0x22"
definition sq :: char where "sq = CHR 0x27"

definition wrap :: "string \<Rightarrow> string \<Rightarrow> caps \<Rightarrow> string" where
  "wrap l r c = l @ cap 1 c @ r"

text \<open>The pattern \<^verbatim>\<open>d(.+?)d\<close> for a delimiter \<open>d\<close>.\<close>

definition delimited :: "string \<Rightarrow> re" where
  "delimited d = seqs [lits d, Grp 1 (lazyPlus Dot), lits d]"

definition reInlineCode :: re where
  "reInlineCode = seqs [Lit CHR ''`'', Grp 1 (many1 (Cls False [Ch CHR ''`''])), Lit CHR ''`'']"

definition titlePart :: re where
  "titlePart = opt (seqs [many1 space, Lit dq, Grp 3 (many1 (Cls False [Ch dq])), Lit dq])"

definition reLink :: re where
  "reLink = seqs [Lit CHR ''['', Grp 1 (many1 (Cls False [Ch CHR '']''])), Lit CHR '']'', Lit CHR ''('',
                  Grp 2 (many1 (Cls False [Ch CHR '')'', Ch dq, Ch sq, WS])), titlePart, Lit CHR '')'']"

definition linkAdditionalProps :: "ParseOptions \<Rightarrow> caps \<Rightarrow> jsobj" where
  \<comment> \<open>the object literal of lines 186-191\<close>
  "linkAdditionalProps opts c =
     [(''href'', Str (cap 2 c))]
     @ (if cap 3 c \<noteq> [] then [(''title'', Str (cap 3 c))] else [])
     @ [(''target'', Str (targetName (linkTarget opts))),
        (''rel'', if linkTarget opts = Blank then Str ''noopener noreferrer'' else Undefined)]"

definition linkProps :: "ParseOptions \<Rightarrow> caps \<Rightarrow> jsobj" where
  "linkProps opts c = getElementProperties opts links (linkAdditionalProps opts c)"

definition linkAttributes :: "ParseOptions \<Rightarrow> caps \<Rightarrow> string list" where
  "linkAttributes opts c =
     map (\<lambda>(key, v). key @ ''='' @ [dq] @ render v @ [dq])
         (filter (\<lambda>(key, v). v \<noteq> Undefined) (linkProps opts c))"

definition linkReplace :: "ParseOptions \<Rightarrow> caps \<Rightarrow> string" where
  "linkReplace opts c = ''<a '' @ joinWith '' '' (linkAttributes opts c) @ ''>'' @ cap 1 c @ ''</a>''"

definition replacements :: "ParseOptions \<Rightarrow> (re \<times> (caps \<Rightarrow> string)) list" where
  "replacements opts =
    [(delimited ''$'', wrap (''<span class='' @ [dq] @ ''math-inline'' @ [dq] @ ''>'') ''</span>''),
     (delimited ''~~'', wrap ''<del>'' ''</del>''),
     (delimited ''^'', wrap ''<sup>'' ''</sup>''),
     (delimited ''~'', wrap ''<sub>'' ''</sub>''),
     (delimited ''=='', wrap ''<mark>'' ''</mark>''),
     (delimited ''***'', wrap ''<strong><em>'' ''</em></strong>''),
     (delimited ''___'', wrap ''<strong><em>'' ''</em></strong>''),
     (delimited ''**'', wrap ''<strong>'' ''</strong>''),
     (delimited ''__'', wrap ''<strong>'' ''</strong>''),
     (delimited ''*'', wrap ''<em>'' ''</em>''),
     (delimited ''_'', wrap ''<em>'' ''</em>''),
     (reInlineCode, wrap ''<code>'' ''</code>''),
     (reLink, linkReplace opts)]"

definition processInlineFormatting :: "ParseOptions \<Rightarrow> string \<Rightarrow> string" where
  "processInlineFormatting opts text =
     (if text = [] then []
      else foldl (\<lambda>processed (regex, replace). replaceAll regex replace processed) text
                 (replacements opts))"


section \<open>The line scanner\<close>

text \<open>The patterns of the block rules, in the order of the source.\<close>

definition testStart :: "re \<Rightarrow> string \<Rightarrow> bool" where
  "testStart r s = (matchStart r s \<noteq> None)"

definition testAnywhere :: "re \<Rightarrow> string \<Rightarrow> bool" where
  "testAnywhere r s = (search r s \<noteq> None)"

definition reTask :: re where
  \<comment> \<open>\<^verbatim>\<open>/^(\s*)-\s\[(x| )\]/\<close>\<close>
  "reTask = seqs [Grp 1 (many0 space), Lit CHR ''-'', space, Lit CHR ''['',
                  Grp 2 (Alt (Lit CHR ''x'') (Lit CHR '' '')), Lit CHR '']'']"

definition reTaskPrefix :: re where
  \<comment> \<open>\<^verbatim>\<open>/^(\s*)-\s\[(x| )\]\s*/\<close>\<close>
  "reTaskPrefix = seqs [Grp 1 (many0 space), Lit CHR ''-'', space, Lit CHR ''['',
                        Grp 2 (Alt (Lit CHR ''x'') (Lit CHR '' '')), Lit CHR '']'', many0 space]"

definition reIndent :: re where
  \<comment> \<open>\<^verbatim>\<open>/^\s*/\<close>\<close>
  "reIndent = many0 space"

definition reHashes :: re where
  \<comment> \<open>\<^verbatim>\<open>/^#{1,6}/\<close>\<close>
  "reHashes = Rep 1 (Some 6) True (Lit CHR ''#'')"

definition reHeading :: re where
  \<comment> \<open>\<^verbatim>\<open>/^#{1,6}\s/\<close>\<close>
  "reHeading = seqs [Rep 1 (Some 6) True (Lit CHR ''#''), space]"

definition reHeadingId :: re where
  \<comment> \<open>\<^verbatim>\<open>/\{#([^}]+)\}/\<close>\<close>
  "reHeadingId = seqs [Lit CHR ''{'', Lit CHR ''#'', Grp 1 (many1 (Cls False [Ch CHR ''}''])), Lit CHR ''}'']"

definition reFenceLang :: re where
  \<comment> \<open>\<^verbatim>\<open>/^```(\S+)?/\<close>\<close>
  "reFenceLang = seqs [lits ''```'', opt (Grp 1 (many1 (Cls False [WS])))]"

definition reFence :: re where
  \<comment> \<open>\<^verbatim>\<open>/^```(\S+)?(\s+\{.*\})?$/\<close>\<close>
  "reFence = seqs [lits ''```'', opt (Grp 1 (many1 (Cls False [WS]))),
                   opt (Grp 2 (seqs [many1 space, Lit CHR ''{'', many0 Dot, Lit CHR ''}''])), Eol]"

definition reQuote :: re where
  \<comment> \<open>\<^verbatim>\<open>/^>\s/\<close>\<close>
  "reQuote = seqs [Lit CHR ''>'', space]"

definition reCitation :: re where
  \<comment> \<open>\<^verbatim>\<open>/^>\s?(.+?)(?:\s+--\s+(.+))?$/\<close>\<close>
  "reCitation = seqs [Lit CHR ''>'', opt space, Grp 1 (lazyPlus Dot),
                      opt (seqs [many1 space, Lit CHR ''-'', Lit CHR ''-'', many1 space, Grp 2 (many1 Dot)]),
                      Eol]"

definition reTableRow :: re where
  \<comment> \<open>\<^verbatim>\<open>/^\|(.+\|)+/\<close>\<close>
  "reTableRow = seqs [Lit CHR ''|'', many1 (Grp 1 (seqs [many1 Dot, Lit CHR ''|'']))]"

definition reAlignRow :: re where
  \<comment> \<open>\<^verbatim>\<open>/^\|(\s*:?-+:?\s*\|)+/\<close>\<close>
  "reAlignRow = seqs [Lit CHR ''|'',
                      many1 (Grp 1 (seqs [many0 space, opt (Lit CHR '':''), many1 (Lit CHR ''-''),
                                          opt (Lit CHR '':''), many0 space, Lit CHR ''|'']))]"

definition reImage :: re where
  \<comment> \<open>\<^verbatim>\<open>/!\[([^\]]*)\]\(([^)\s]+)(?:\s+"([^"]+)")?\)/\<close>\<close>
  "reImage = seqs [Lit CHR ''!'', Lit CHR ''['', Grp 1 (many0 (Cls False [Ch CHR '']''])), Lit CHR '']'',
                   Lit CHR ''('', Grp 2 (many1 (Cls False [Ch CHR '')'', WS])), titlePart, Lit CHR '')'']"

definition reList :: re where
  \<comment> \<open>\<^verbatim>\<open>/^(\s*)([-*+]|\d+\.)\s/\<close>\<close>
  "reList = seqs [Grp 1 (many0 space),
                  Grp 2 (Alt (Cls True [Ch CHR ''-'', Ch CHR ''*'', Ch CHR ''+''])
                             (Seq (many1 (Cls True [Dig])) (Lit CHR ''.''))),
                  space]"

definition reOrdered :: re where
  \<comment> \<open>\<^verbatim>\<open>/^\s*\d+\./\<close>\<close>
  "reOrdered = seqs [many0 space, many1 (Cls True [Dig]), Lit CHR ''.'']"

text \<open>The mutable variables of \<open>parse\<close> (parser.tsx, lines 115-120).\<close>

record pstate =
  html :: "node list"
  inCodeBlock :: bool
  codeBlockLang :: "string option"
  codeBlock :: "string list"
  nestingLevel :: nat
  skipLines :: nat

definition initialState :: pstate where
  "initialState = \<lparr> html = [], inCodeBlock = False, codeBlockLang = None, codeBlock = [],
                     nestingLevel = 0, skipLines = 0 \<rparr>"

definition push :: "node \<Rightarrow> pstate \<Rightarrow> pstate" where
  "push n st = st \<lparr> html := html st @ [n] \<rparr>"

definition nestingMessage :: string where
  "nestingMessage = ''Maximum nesting level reached''"

text \<open>The length of the match of \<open>r\<close> at the start of \<open>s\<close>.\<close>

definition matchLength :: "re \<Rightarrow> string \<Rightarrow> nat option" where
  "matchLength r s = (case matchStart r s of Some (rest, c) \<Rightarrow> Some (length s - length rest) | None \<Rightarrow> None)"

definition nothing :: "caps \<Rightarrow> string" where
  "nothing c = []"

text \<open>The definition-list rule (lines 225-259).\<close>

definition isDefinitionTerm :: "string list \<Rightarrow> string \<Rightarrow> nat \<Rightarrow> bool" where
  "isDefinitionTerm lines line index =
     (index + 1 < length lines \<and> trim line \<noteq> [] \<and> \<not> startsWith '':'' (trim line)
      \<and> startsWith '':'' (trim (lines ! (index + 1))))"

definition definitionsAfter :: "string list \<Rightarrow> nat \<Rightarrow> string list" where
  \<comment> \<open>the \<^verbatim>\<open>while\<close> loop of lines 239-242\<close>
  "definitionsAfter lines index =
     map (\<lambda>l. trim (drop 1 (trim l))) (takeWhile (\<lambda>l. startsWith '':'' (trim l)) (drop (index + 1) lines))"

definition definitionListRule :: "ParseOptions \<Rightarrow> string list \<Rightarrow> string \<Rightarrow> nat \<Rightarrow> pstate \<Rightarrow> pstate" where
  "definitionListRule opts lines line index st =
     (let definitions = definitionsAfter lines index
      in push (DefinitionList index (getElementProperties opts lists [])
                 (processInlineFormatting opts (trim line))
                 (map (processInlineFormatting opts) definitions))
              (st \<lparr> skipLines := length definitions \<rparr>))"

text \<open>The task rule (lines 262-280) and the list rule (lines 472-493).\<close>

definition indentOf :: "string \<Rightarrow> nat" where
  "indentOf line = (case matchLength reIndent line of Some n \<Rightarrow> n | None \<Rightarrow> 0)"

definition marginStyle :: "nat \<Rightarrow> jsval" where
  "marginStyle level = StyleObj [(''marginLeft'', showNat (level * 20) @ ''px'')]"

definition taskRule :: "ParseOptions \<Rightarrow> string \<Rightarrow> nat \<Rightarrow> pstate \<Rightarrow> pstate" where
  "taskRule opts line index st =
     (let indent = indentOf line;
          checked = includesStr ''[x]'' line;
          text = replaceStart reTaskPrefix nothing line;
          level = indent div 2
      in push (TaskItem index (objSet ''style'' (marginStyle level) (getElementProperties opts lists []))
                 checked (processInlineFormatting opts text))
              (st \<lparr> nestingLevel := level \<rparr>))"

definition listRule :: "ParseOptions \<Rightarrow> string \<Rightarrow> nat \<Rightarrow> pstate \<Rightarrow> pstate" where
  "listRule opts line index st =
     (let indent = indentOf line;
          isOrdered = testStart reOrdered line;
          text = replaceStart reList nothing line;
          level = indent div 2
      in push (ListNode index isOrdered
                 (objSet ''style'' (marginStyle level) (getElementProperties opts lists []))
                 (processInlineFormatting opts text))
              (st \<lparr> nestingLevel := level \<rparr>))"

text \<open>The heading rule (lines 283-302).\<close>

definition headingLevel :: "string \<Rightarrow> nat" where
  "headingLevel line = (case matchLength reHashes line of Some n \<Rightarrow> if n = 0 then 1 else n | None \<Rightarrow> 1)"

definition headingRule :: "ParseOptions \<Rightarrow> string \<Rightarrow> nat \<Rightarrow> pstate \<Rightarrow> pstate" where
  "headingRule opts line index st =
     (let level = headingLevel line;
          text = replaceStart reHeading nothing line;
          ident = (case search reHeadingId text of Some (p, rest, c) \<Rightarrow> Str (cap 1 c) | None \<Rightarrow> Undefined);
          cleanText = trim (replaceFirst reHeadingId nothing text)
      in push (Heading index level ident (getElementProperties opts headings [])
                 (processInlineFormatting opts cleanText)) st)"

text \<open>The code-fence rule (lines 305-328).\<close>

definition fenceRule :: "ParseOptions \<Rightarrow> string \<Rightarrow> nat \<Rightarrow> pstate \<Rightarrow> pstate" where
  "fenceRule opts line index st =
     (if \<not> inCodeBlock st then
        st \<lparr> inCodeBlock := True,
             codeBlockLang := (case matchStart reFenceLang (trim line) of
                                 Some (rest, c) \<Rightarrow> if cap 1 c \<noteq> [] then Some (cap 1 c) else None
                               | None \<Rightarrow> None),
             codeBlock := [] \<rparr>
      else
        (push (CodeBlock index (getElementProperties opts codeBlocks [])
                 (case codeBlockLang st of Some lang \<Rightarrow> Str (langPrefix opts @ lang) | None \<Rightarrow> Undefined)
                 (joinWith [CHR 0x0A] (codeBlock st))) st)
          \<lparr> inCodeBlock := False, codeBlock := [], codeBlockLang := None \<rparr>)"

text \<open>The blockquote rule (lines 335-360).\<close>

definition blockquoteRule :: "ParseOptions \<Rightarrow> string \<Rightarrow> nat \<Rightarrow> pstate \<Rightarrow> pstate" where
  "blockquoteRule opts line index st =
     (case matchStart reCitation line of
        Some (rest, c) \<Rightarrow>
          push (Blockquote index (getElementProperties opts blockquotes [])
                  (processInlineFormatting opts (cap 1 c))
                  (if cap 2 c \<noteq> [] then Str (cap 2 c) else Undefined)) st
      | None \<Rightarrow>
          push (Blockquote index (getElementProperties opts blockquotes [])
                  (processInlineFormatting opts (replaceStart reQuote nothing (trim line)))
                  Undefined) st)"

text \<open>
  The table rule (lines 363-448). Inside the callback \<open>index\<close> is a local variable: the
  increments of lines 390 and 400 move the key of the table, not the iteration.
\<close>

definition isTableRow :: "string \<Rightarrow> bool" where
  "isTableRow l = testStart reTableRow (trim l)"

definition isAlignRow :: "string \<Rightarrow> bool" where
  "isAlignRow l = testStart reAlignRow (trim l)"

definition cellAlign :: "string \<Rightarrow> align" where
  "cellAlign cell =
     (if startsWith '':'' (trim cell) \<and> endsWith '':'' (trim cell) then ACenter
      else if endsWith '':'' (trim cell) then ARight else ALeft)"

definition alignAt :: "align list \<Rightarrow> nat \<Rightarrow> align" where
  "alignAt alignments i = (if i < length alignments then alignments ! i else ALeft)"

definition cells :: "string \<Rightarrow> string list" where
  "cells row = sliceInner (splitOn CHR ''|'' row)"

definition hasAlignRow :: "string list \<Rightarrow> nat \<Rightarrow> bool" where
  "hasAlignRow lines index = (index + 1 < length lines \<and> isAlignRow (lines ! (index + 1)))"

definition bodyRows :: "string list \<Rightarrow> nat \<Rightarrow> string list" where
  \<comment> \<open>the \<^verbatim>\<open>while\<close> loop of lines 394-401, started with \<open>index\<close> at \<open>index1\<close>\<close>
  "bodyRows lines index1 =
     map trim (takeWhile (\<lambda>l. isTableRow l \<and> \<not> isAlignRow l) (drop (index1 + 1) lines))"

definition tableNode :: "ParseOptions \<Rightarrow> string list \<Rightarrow> string \<Rightarrow> nat \<Rightarrow> node" where
  "tableNode opts lines line index =
     (let alignments = (if hasAlignRow lines index
                        then map cellAlign (cells (trim (lines ! (index + 1)))) else []);
          index1 = (if hasAlignRow lines index then index + 1 else index);
          tableRows = trim line # bodyRows lines index1;
          index2 = index1 + length (bodyRows lines index1);
          headerColumns = map trim (cells (hd tableRows))
      in Table index2 (getElementProperties opts tables [])
           (map (\<lambda>(i, col). (alignAt alignments i, processInlineFormatting opts col))
                (enumerate 0 headerColumns))
           (map (\<lambda>row. map (\<lambda>(i, cell). (alignAt alignments i, processInlineFormatting opts (trim cell)))
                           (enumerate 0 (cells row)))
                (tl tableRows)))"

definition tableRule :: "ParseOptions \<Rightarrow> string list \<Rightarrow> string \<Rightarrow> nat \<Rightarrow> pstate \<Rightarrow> pstate" where
  "tableRule opts lines line index st =
     (if 0 < index \<and> isTableRow (lines ! (index - 1)) then st
      else if \<not> isAlignRow line then push (tableNode opts lines line index) st
      else st)"

text \<open>The image rule (lines 451-469) and the paragraph rule (lines 496-503).\<close>

definition imageRule :: "ParseOptions \<Rightarrow> string \<Rightarrow> nat \<Rightarrow> pstate \<Rightarrow> pstate" where
  "imageRule opts line index st =
     (case search reImage (trim line) of
        Some (p, rest, c) \<Rightarrow>
          push (Image index ([(''src'', Str (cap 2 c)), (''alt'', Str (cap 1 c)),
                              (''title'', if cap 3 c \<noteq> [] then Str (cap 3 c) else Undefined)]
                             @ getElementProperties opts images [])) st
      | None \<Rightarrow> st)"

definition paragraphRule :: "ParseOptions \<Rightarrow> string \<Rightarrow> nat \<Rightarrow> pstate \<Rightarrow> pstate" where
  "paragraphRule opts line index st =
     (let processedText = processInlineFormatting opts (trim line)
      in if trim processedText \<noteq> []
         then push (Paragraph index (getElementProperties opts paragraphs []) processedText) st
         else st)"

text \<open>The callback of \<^verbatim>\<open>lines.forEach\<close> (lines 211-504).\<close>

definition processLine :: "ParseOptions \<Rightarrow> string list \<Rightarrow> string \<Rightarrow> nat \<Rightarrow> pstate \<Rightarrow> pstate" where
  "processLine opts lines line index st =
     (if 0 < skipLines st then st \<lparr> skipLines := skipLines st - 1 \<rparr>
      else if maxNestingLevel opts < int (nestingLevel st) then push (ErrorP index nestingMessage) st
      else if isDefinitionTerm lines line index then definitionListRule opts lines line index st
      else if testStart reTask (trim line) then taskRule opts line index st
      else if testStart reHeading (trim line) then headingRule opts line index st
      else if testStart reFence (trim line) then fenceRule opts line index st
      else if inCodeBlock st then st \<lparr> codeBlock := codeBlock st @ [line] \<rparr>
      else if testStart reQuote (trim line) then blockquoteRule opts line index st
      else if isTableRow line then tableRule opts lines line index st
      else if testAnywhere reImage (trim line) then imageRule opts line index st
      else if testStart reList (trim line) then listRule opts line index st
      else paragraphRule opts line index st)"

definition run :: "ParseOptions \<Rightarrow> string list \<Rightarrow> nat list \<Rightarrow> pstate \<Rightarrow> pstate" where
  "run opts lines is st = foldl (\<lambda>st i. processLine opts lines (lines ! i) i st) st is"

definition parse :: "string \<Rightarrow> ParseOptions \<Rightarrow> node list" where
  "parse markdown opts =
     (let lines = splitLines (trim markdown)
      in html (run opts lines [0..<length lines] initialState))"


section \<open>Notions used in the statements\<close>

text \<open>
  The nesting guard fires only on lines that are not skipped: wherever the level is above
  the ceiling no definition line is pending.
\<close>

definition guarded :: "ParseOptions \<Rightarrow> pstate \<Rightarrow> bool" where
  "guarded opts st = (maxNestingLevel opts < int (nestingLevel st) \<longrightarrow> skipLines st = 0)"

text \<open>The subject without its trailing white space (\<^verbatim>\<open>trimEnd\<close>).\<close>

definition trimEnd :: "string \<Rightarrow> string" where
  "trimEnd s = rev (dropWhile isSpace (rev s))"

text \<open>The nodes of the rules that the callback tries before the code-fence rules.\<close>

fun beforeFence :: "node \<Rightarrow> bool" where
  "beforeFence (ErrorP i t) = True"
| "beforeFence (DefinitionList i p t ds) = True"
| "beforeFence (TaskItem i p c t) = True"
| "beforeFence (Heading i l d p t) = True"
| "beforeFence n = False"

text \<open>The key of a node.\<close>

fun nodeIndex :: "node \<Rightarrow> nat" where
  "nodeIndex (ErrorP i t) = i"
| "nodeIndex (DefinitionList i p t ds) = i"
| "nodeIndex (TaskItem i p c t) = i"
| "nodeIndex (Heading i l d p t) = i"
| "nodeIndex (CodeBlock i p c t) = i"
| "nodeIndex (Blockquote i p t c) = i"
| "nodeIndex (Table i p h rs) = i"
| "nodeIndex (Image i p) = i"
| "nodeIndex (ListNode i b p t) = i"
| "nodeIndex (Paragraph i p t) = i"

text \<open>The error node of the nesting guard (lines 217-220).\<close>

fun isError :: "node \<Rightarrow> bool" where
  "isError (ErrorP i t) = (t = nestingMessage)"
| "isError n = False"

text \<open>
  The nodes that line \<open>j\<close> adds to the output: what the callback at \<open>j\<close> leaves behind the
  nodes of the lines before it.
\<close>

definition emitted :: "ParseOptions \<Rightarrow> string list \<Rightarrow> nat \<Rightarrow> node list" where
  "emitted opts lines j =
     drop (length (html (run opts lines [0..<j] initialState))) (html (run opts lines [0..<Suc j] initialState))"

text \<open>
  Line \<open>j\<close> is buffered: the callback reaches \<^verbatim>\<open>codeBlock.push(line)\<close> (lines 330-333) with
  it, that is, a fence is open and none of the branches before that one takes the line.
\<close>

definition buffered :: "ParseOptions \<Rightarrow> string list \<Rightarrow> nat \<Rightarrow> bool" where
  "buffered opts lines j =
     (let st = run opts lines [0..<j] initialState; line = lines ! j
      in skipLines st = 0 \<and> \<not> maxNestingLevel opts < int (nestingLevel st)
         \<and> \<not> isDefinitionTerm lines line j \<and> \<not> testStart reTask (trim line)
         \<and> \<not> testStart reHeading (trim line) \<and> \<not> testStart reFence (trim line) \<and> inCodeBlock st)"

text \<open>
  A list nested by indentation: line \<open>j\<close> passes the test of the list rule and is indented by
  \<open>2 * j\<close> white-space characters, so the task rule and the list rule give it the level \<open>j\<close>.
  Such a line is classified by the image rule (lines 451-469), which is tried before the list
  rule and leaves the level as it is, when it is not a task line and has an image token.
\<close>

definition nestedBy2 :: "string list \<Rightarrow> bool" where
  "nestedBy2 lines = list_all (\<lambda>(j, l). indentOf l = 2 * j \<and> testStart reList (trim l)) (enumerate 0 lines)"

definition byImageRule :: "string \<Rightarrow> bool" where
  "byImageRule l = (\<not> testStart reTask (trim l) \<and> testAnywhere reImage (trim l))"

definition LF :: char where "LF = CHR 0x0A"

text \<open>
  The input of the test ``should handle maximum nesting level'', and the same list with an
  image as the text of the items of lines 4 and 5.
\<close>

definition nestedList7 :: string where
  "nestedList7 = ''- Level 1'' @ [LF] @ ''  - Level 2'' @ [LF] @ ''    - Level 3'' @ [LF]
     @ ''      - Level 4'' @ [LF] @ ''        - Level 5'' @ [LF] @ ''          - Level 6'' @ [LF]
     @ ''            - Level 7''"

definition nestedImages7 :: string where
  "nestedImages7 = ''- Level 1'' @ [LF] @ ''  - Level 2'' @ [LF] @ ''    - Level 3'' @ [LF]
     @ ''      - Level 4'' @ [LF] @ ''        - ![a](b)'' @ [LF] @ ''          - ![c](d)'' @ [LF]
     @ ''            - Level 7''"

definition ceiling3 :: ParseOptions where
  "ceiling3 = defaultOptions \<lparr> maxNestingLevel := 3 \<rparr>"

definition ulProps :: "nat \<Rightarrow> jsobj" where
  "ulProps px = [(''style'', StyleObj [(''marginLeft'', showNat px @ ''px'')]), (''className'', Undefined)]"

definition noProps :: jsobj where
  "noProps = [(''style'', Undefined), (''className'', Undefined)]"


section \<open>Evaluation on fixed inputs\<close>

lemma trim_Nil: "trim [] = []"
  by (simp add: trim_def)

lemma tests_Nil:
  "\<not> testStart reTask []" "\<not> testStart reHeading []" "\<not> testStart reFence []"
  "\<not> testStart reQuote []" "\<not> isTableRow []" "\<not> testAnywhere reImage []" "\<not> testStart reList []"
  by code_simp+





text \<open>The option \<open>sanitizeHtml\<close> is never read.\<close>

lemma sanitizeHtml_unused_props:
  "getElementProperties (opts \<lparr> sanitizeHtml := b \<rparr>) = getElementProperties opts"
  by (simp add: getElementProperties_def fun_eq_iff)

lemma sanitizeHtml_unused_inline:
  "processInlineFormatting (opts \<lparr> sanitizeHtml := b \<rparr>) = processInlineFormatting opts"
proof -
  have "linkReplace (opts \<lparr> sanitizeHtml := b \<rparr>) = linkReplace opts"
    by (simp add: fun_eq_iff linkReplace_def linkAttributes_def linkProps_def linkAdditionalProps_def
        sanitizeHtml_unused_props)
  then have "replacements (opts \<lparr> sanitizeHtml := b \<rparr>) = replacements opts"
    by (simp only: replacements_def)
  then show ?thesis
    by (simp add: fun_eq_iff processInlineFormatting_def)
qed

lemma sanitizeHtml_unused_rules:
  "definitionListRule (opts \<lparr> sanitizeHtml := b \<rparr>) = definitionListRule opts"
  "taskRule (opts \<lparr> sanitizeHtml := b \<rparr>) = taskRule opts"
  "headingRule (opts \<lparr> sanitizeHtml := b \<rparr>) = headingRule opts"
  "fenceRule (opts \<lparr> sanitizeHtml := b \<rparr>) = fenceRule opts"
  "blockquoteRule (opts \<lparr> sanitizeHtml := b \<rparr>) = blockquoteRule opts"
  "tableRule (opts \<lparr> sanitizeHtml := b \<rparr>) = tableRule opts"
  "imageRule (opts \<lparr> sanitizeHtml := b \<rparr>) = imageRule opts"
  "listRule (opts \<lparr> sanitizeHtml := b \<rparr>) = listRule opts"
  "paragraphRule (opts \<lparr> sanitizeHtml := b \<rparr>) = paragraphRule opts"
  by (simp_all add: fun_eq_iff definitionListRule_def taskRule_def headingRule_def fenceRule_def
      blockquoteRule_def tableRule_def tableNode_def imageRule_def listRule_def paragraphRule_def
      sanitizeHtml_unused_props sanitizeHtml_unused_inline Let_def split: option.splits prod.splits
      cong: if_cong)

lemma sanitizeHtml_unused_step:
  "processLine (opts \<lparr> sanitizeHtml := b \<rparr>) = processLine opts"
  by (simp add: fun_eq_iff processLine_def sanitizeHtml_unused_rules)

lemma sanitizeHtml_unused: "parse markdown (opts \<lparr> sanitizeHtml := b \<rparr>) = parse markdown opts"
  by (simp add: parse_def run_def sanitizeHtml_unused_step)


section \<open>The nesting guard and the open fence along the scan\<close>

lemma run_Nil: "run opts lines [] st = st"
  by (simp add: run_def)

lemma run_Cons: "run opts lines (i # is) st = run opts lines is (processLine opts lines (lines ! i) i st)"
  by (simp add: run_def)

lemma run_append: "run opts lines (xs @ ys) st = run opts lines ys (run opts lines xs st)"
  by (simp add: run_def)

lemma run_split:
  assumes "k \<le> n"
  shows "run opts lines [0..<n] st = run opts lines [k..<n] (run opts lines [0..<k] st)"
proof -
  have "[0..<n] = [0..<k] @ [k..<n]"
    using assms by (metis le_add_diff_inverse upt_add_eq_append zero_le)
  then show ?thesis by (simp add: run_append)
qed

lemma processLine_guard:
  "skipLines st = 0 \<Longrightarrow> maxNestingLevel opts < int (nestingLevel st) \<Longrightarrow>
   processLine opts lines line i st = push (ErrorP i nestingMessage) st"
  by (simp add: processLine_def)

lemma guarded_step: "guarded opts st \<Longrightarrow> guarded opts (processLine opts lines line i st)"
  unfolding guarded_def processLine_def
  by (auto simp add: definitionListRule_def taskRule_def headingRule_def fenceRule_def blockquoteRule_def
      tableRule_def imageRule_def listRule_def paragraphRule_def push_def Let_def
      split: option.splits prod.splits)

lemma guarded_run: "guarded opts st \<Longrightarrow> guarded opts (run opts lines is st)"
  unfolding run_def by (induction "is" arbitrary: st) (auto intro: guarded_step)

lemma guarded_initial: "guarded opts initialState"
  by (simp add: guarded_def initialState_def)

lemma run_errors:
  "skipLines st = 0 \<Longrightarrow> maxNestingLevel opts < int (nestingLevel st) \<Longrightarrow>
   run opts lines is st = st \<lparr> html := html st @ map (\<lambda>i. ErrorP i nestingMessage) is \<rparr>"
proof (induction "is" arbitrary: st)
  case Nil
  then show ?case by (simp add: run_Nil)
next
  case (Cons i "is")
  have "run opts lines (i # is) st = run opts lines is (push (ErrorP i nestingMessage) st)"
    using Cons.prems by (simp add: run_Cons processLine_guard)
  also have "\<dots> = (push (ErrorP i nestingMessage) st)
      \<lparr> html := html (push (ErrorP i nestingMessage) st) @ map (\<lambda>i. ErrorP i nestingMessage) is \<rparr>"
    using Cons.prems by (intro Cons.IH) (simp_all add: push_def)
  finally show ?case by (simp add: push_def)
qed

lemma fence_open_step:
  assumes "inCodeBlock st" "\<not> testStart reFence (trim line)"
  shows "inCodeBlock (processLine opts lines line i st)
       \<and> (\<exists>ns. html (processLine opts lines line i st) = html st @ ns \<and> list_all beforeFence ns)"
  using assms unfolding processLine_def
  by (auto simp add: definitionListRule_def taskRule_def headingRule_def push_def Let_def)

lemma fence_open_run:
  assumes "inCodeBlock st" "\<forall>j \<in> set is. \<not> testStart reFence (trim (lines ! j))"
  shows "inCodeBlock (run opts lines is st)
       \<and> (\<exists>ns. html (run opts lines is st) = html st @ ns \<and> list_all beforeFence ns)"
  using assms
proof (induction "is" arbitrary: st)
  case Nil
  then show ?case by (simp add: run_Nil)
next
  case (Cons i "is")
  let ?st = "processLine opts lines (lines ! i) i st"
  from Cons.prems fence_open_step [of st "lines ! i" opts lines i]
  obtain ns where a: "inCodeBlock ?st" "html ?st = html st @ ns" "list_all beforeFence ns"
    by auto
  from Cons.IH [OF a(1)] Cons.prems(2)
  obtain ms where b: "inCodeBlock (run opts lines is ?st)" "html (run opts lines is ?st) = html ?st @ ms"
      "list_all beforeFence ms"
    by auto
  show ?case using a b by (simp add: run_Cons)
qed

lemma nestedList7_state:
  "maxNestingLevel ceiling3
     < int (nestingLevel (run ceiling3 (splitLines (trim nestedList7)) [0..<5] initialState))"
  by code_simp

lemma nestedList7_length: "length (splitLines (trim nestedList7)) = 7"
  by code_simp


section \<open>Matching on lines with a known first character\<close>

lemmas re_defs = testStart_def matchStart_def matchLength_def many0_def many1_def lazyPlus_def opt_def space_def
  lits_def delimited_def oneChar_def clear_def inClass_def

lemma trimEnd_Cons: "\<not> isSpace c \<Longrightarrow> trimEnd (c # s) = c # trimEnd s"
  by (cases "\<forall>x \<in> set (rev s). isSpace x") (auto simp add: trimEnd_def dropWhile_append dropWhile_eq_Nil_conv)

lemma trimEnd_Cons_more: "\<exists>x \<in> set s. \<not> isSpace x \<Longrightarrow> trimEnd (c # s) = c # trimEnd s"
  by (auto simp add: trimEnd_def dropWhile_append)

lemma trim_Cons: "\<not> isSpace c \<Longrightarrow> trim (c # s) = c # trimEnd s"
  using trimEnd_Cons [of c s] by (simp add: trim_def trimEnd_def)

lemma trimEnd_replicate: "\<not> isSpace c \<Longrightarrow> trimEnd (replicate n c @ s) = replicate n c @ trimEnd s"
  by (induction n) (simp_all add: trimEnd_Cons)

lemma space_not_hash: "isSpace w \<Longrightarrow> w \<noteq> CHR ''#''" by (auto simp add: isSpace_def)
lemma hash_not_space: "\<not> isSpace CHR ''#''" by (simp add: isSpace_def)

lemma trim_heading_line:
  assumes "1 \<le> N" "\<exists>x \<in> set text. \<not> isSpace x"
  shows "trim (replicate N CHR ''#'' @ w # text) = replicate N CHR ''#'' @ w # trimEnd text"
proof -
  obtain M where N: "N = Suc M" using assms(1) by (cases N) auto
  have "trim (replicate N CHR ''#'' @ w # text) = CHR ''#'' # trimEnd (replicate M CHR ''#'' @ w # text)"
    by (simp add: N trim_Cons hash_not_space)
  also have "\<dots> = CHR ''#'' # replicate M CHR ''#'' @ trimEnd (w # text)"
    by (simp add: trimEnd_replicate hash_not_space)
  also have "\<dots> = replicate N CHR ''#'' @ w # trimEnd text"
    using assms(2) by (simp add: N trimEnd_Cons_more)
  finally show ?thesis .
qed

lemma six_cases: "1 \<le> N \<Longrightarrow> N \<le> 6 \<Longrightarrow> N = 1 \<or> N = 2 \<or> N = 3 \<or> N = 4 \<or> N = 5 \<or> N = (6::nat)"
  by auto

lemma heading_test_prefix:
  assumes "isSpace w" "1 \<le> N" "N \<le> 6"
  shows "testStart reHeading (replicate N CHR ''#'' @ w # t)"
  using six_cases [OF assms(2,3)] assms(1) space_not_hash[OF assms(1)]
  by (elim disjE) (simp_all add: reHeading_def re_defs rep.simps numeral_eq_Suc)

lemma heading_level_prefix:
  assumes "isSpace w" "1 \<le> N" "N \<le> 6"
  shows "headingLevel (replicate N CHR ''#'' @ w # t) = N"
  using six_cases [OF assms(2,3)] assms(1) space_not_hash[OF assms(1)]
  by (elim disjE) (simp_all add: headingLevel_def reHashes_def re_defs rep.simps numeral_eq_Suc)

lemma hash_first:
  "\<not> testStart reTask (CHR ''#'' # t)" "\<not> testStart reFence (CHR ''#'' # t)"
  "\<not> testStart reQuote (CHR ''#'' # t)" "\<not> testStart reTableRow (CHR ''#'' # t)"
  "\<not> testStart reList (CHR ''#'' # t)"
  by (simp_all add: reTask_def reFence_def reQuote_def reTableRow_def reList_def re_defs rep.simps
      isSpace_def isDigit_def)

lemma seven_hashes_no_heading:
  "\<not> testStart reHeading (CHR ''#'' # CHR ''#'' # CHR ''#'' # CHR ''#'' # CHR ''#'' # CHR ''#'' # CHR ''#'' # t)"
  by (simp add: reHeading_def re_defs rep.simps isSpace_def)

lemma replaceAll_skip: "matchStart r (a # s) = None \<Longrightarrow> replaceAll r f (a # s) = a # replaceAll r f s"
  by simp

lemma hash_no_inline:
  "matchStart (delimited ''$'') (CHR ''#'' # s) = None"
  "matchStart (delimited ''~~'') (CHR ''#'' # s) = None"
  "matchStart (delimited ''^'') (CHR ''#'' # s) = None"
  "matchStart (delimited ''~'') (CHR ''#'' # s) = None"
  "matchStart (delimited ''=='') (CHR ''#'' # s) = None"
  "matchStart (delimited ''***'') (CHR ''#'' # s) = None"
  "matchStart (delimited ''___'') (CHR ''#'' # s) = None"
  "matchStart (delimited ''**'') (CHR ''#'' # s) = None"
  "matchStart (delimited ''__'') (CHR ''#'' # s) = None"
  "matchStart (delimited ''*'') (CHR ''#'' # s) = None"
  "matchStart (delimited ''_'') (CHR ''#'' # s) = None"
  "matchStart reInlineCode (CHR ''#'' # s) = None"
  "matchStart reLink (CHR ''#'' # s) = None"
  by (simp_all add: reInlineCode_def reLink_def re_defs)

lemma inline_keeps_hash: "\<exists>t. processInlineFormatting opts (CHR ''#'' # s) = CHR ''#'' # t"
  by (simp add: processInlineFormatting_def replacements_def replaceAll_skip hash_no_inline del: replaceAll.simps)


lemma trim_seven_hashes:
  assumes "6 < N"
  shows "\<exists>t. trim (replicate N CHR ''#'' @ rest)
            = CHR ''#'' # CHR ''#'' # CHR ''#'' # CHR ''#'' # CHR ''#'' # CHR ''#'' # CHR ''#'' # t"
proof -
  obtain M where N: "N = 7 + M" using assms by (metis Suc_leI add.commute eval_nat_numeral(3) le_Suc_ex plus_1_eq_Suc)
  have "replicate N CHR ''#'' @ rest = replicate 7 CHR ''#'' @ (replicate M CHR ''#'' @ rest)"
    by (simp add: N replicate_add)
  then have "trim (replicate N CHR ''#'' @ rest)
      = CHR ''#'' # trimEnd (replicate 6 CHR ''#'' @ (replicate M CHR ''#'' @ rest))"
    by (simp add: numeral_eq_Suc trim_Cons hash_not_space)
  also have "\<dots> = CHR ''#'' # replicate 6 CHR ''#'' @ trimEnd (replicate M CHR ''#'' @ rest)"
    by (simp only: trimEnd_replicate [OF hash_not_space])
  finally show ?thesis by (simp add: numeral_eq_Suc)
qed

lemma heading_line_step:
  assumes "skipLines st = 0" "\<not> maxNestingLevel opts < int (nestingLevel st)"
    and "\<not> isDefinitionTerm lines line index"
    and "1 \<le> N" "N \<le> 6" "isSpace w" "\<exists>x \<in> set text. \<not> isSpace x"
    and "line = replicate N CHR ''#'' @ w # text"
  shows "\<exists>ident txt. processLine opts lines line index st
           = push (Heading index N ident (getElementProperties opts headings []) txt) st"
proof -
  have t: "trim line = replicate N CHR ''#'' @ w # trimEnd text"
    using assms(4,7,8) by (simp add: trim_heading_line)
  obtain M where N: "N = Suc M" using assms(4) by (cases N) auto
  have "trim line = CHR ''#'' # replicate M CHR ''#'' @ w # trimEnd text"
    using t by (simp add: N)
  then have a: "\<not> testStart reTask (trim line)"
    by (simp add: hash_first)
  have b: "testStart reHeading (trim line)"
    unfolding t using assms(4,5,6) by (intro heading_test_prefix)
  have c: "headingLevel line = N"
    unfolding assms(8) using assms(4,5,6) by (intro heading_level_prefix)
  have "processLine opts lines line index st = headingRule opts line index st"
    using assms(1,2,3) a b by (simp add: processLine_def)
  then show ?thesis
    by (auto simp add: headingRule_def Let_def c)
qed

lemma long_hash_line_step:
  assumes "skipLines st = 0" "\<not> maxNestingLevel opts < int (nestingLevel st)"
    and "\<not> isDefinitionTerm lines line index"
    and "6 < N" "line = replicate N CHR ''#'' @ rest"
  shows "\<not> testStart reHeading (trim line)"
    and "\<not> inCodeBlock st \<Longrightarrow> testAnywhere reImage (trim line) \<Longrightarrow>
           \<exists>props. processLine opts lines line index st = push (Image index props) st"
    and "\<not> inCodeBlock st \<Longrightarrow> \<not> testAnywhere reImage (trim line) \<Longrightarrow>
           processLine opts lines line index st
             = push (Paragraph index (getElementProperties opts paragraphs [])
                       (processInlineFormatting opts (trim line))) st"
proof -
  obtain t where t: "trim line
      = CHR ''#'' # CHR ''#'' # CHR ''#'' # CHR ''#'' # CHR ''#'' # CHR ''#'' # CHR ''#'' # t"
    using trim_seven_hashes [OF assms(4)] assms(5) by blast
  show h: "\<not> testStart reHeading (trim line)"
    unfolding t by (rule seven_hashes_no_heading)
  have o: "\<not> testStart reTask (trim line)" "\<not> testStart reFence (trim line)"
      "\<not> testStart reQuote (trim line)" "\<not> isTableRow line" "\<not> testStart reList (trim line)"
    unfolding isTableRow_def t by (rule hash_first)+
  {
    assume f: "\<not> inCodeBlock st" and i: "testAnywhere reImage (trim line)"
    have "processLine opts lines line index st = imageRule opts line index st"
      using assms(1,2,3) h o f i by (simp add: processLine_def)
    then show "\<exists>props. processLine opts lines line index st = push (Image index props) st"
      using i by (auto simp add: imageRule_def testAnywhere_def split: option.splits)
  }
  {
    assume f: "\<not> inCodeBlock st" and i: "\<not> testAnywhere reImage (trim line)"
    obtain u where u: "processInlineFormatting opts (trim line) = CHR ''#'' # u"
      unfolding t using inline_keeps_hash by blast
    have "trim (processInlineFormatting opts (trim line)) \<noteq> []"
      unfolding u by (simp add: trim_Cons hash_not_space)
    moreover have "processLine opts lines line index st = paragraphRule opts line index st"
      using assms(1,2,3) h o f i by (simp add: processLine_def)
    ultimately show "processLine opts lines line index st
             = push (Paragraph index (getElementProperties opts paragraphs [])
                       (processInlineFormatting opts (trim line))) st"
      by (simp add: paragraphRule_def Let_def)
  }
qed


section \<open>Table rows and fence lines\<close>

lemma pipe_first:
  "\<not> testStart reTask (CHR ''|'' # t)" "\<not> testStart reHeading (CHR ''|'' # t)"
  "\<not> testStart reFence (CHR ''|'' # t)" "\<not> testStart reQuote (CHR ''|'' # t)"
  "\<not> startsWith '':'' (CHR ''|'' # t)"
  by (simp_all add: reTask_def reHeading_def reFence_def reQuote_def re_defs rep.simps isSpace_def
      startsWith_def)

lemma tableRow_first: "testStart reTableRow s \<Longrightarrow> \<exists>t. s = CHR ''|'' # t"
  by (cases s) (simp_all add: reTableRow_def re_defs split: if_splits)

lemma fence_first: "testStart reFence s \<Longrightarrow> \<exists>t. s = CHR ''`'' # t"
  by (cases s) (simp_all add: reFence_def re_defs split: if_splits)

lemma table_row_tests:
  assumes "isTableRow l"
  shows "\<not> testStart reTask (trim l)" "\<not> testStart reHeading (trim l)" "\<not> testStart reFence (trim l)"
    "\<not> testStart reQuote (trim l)" "\<not> startsWith '':'' (trim l)"
proof -
  obtain t where "trim l = CHR ''|'' # t"
    using assms tableRow_first by (auto simp add: isTableRow_def)
  then show "\<not> testStart reTask (trim l)" "\<not> testStart reHeading (trim l)" "\<not> testStart reFence (trim l)"
    "\<not> testStart reQuote (trim l)" "\<not> startsWith '':'' (trim l)"
    by (simp_all add: pipe_first)
qed

lemma table_header_step:
  assumes "skipLines st = 0" "\<not> maxNestingLevel opts < int (nestingLevel st)" "\<not> inCodeBlock st"
    and "isTableRow (lines ! i)" "\<not> isAlignRow (lines ! i)" "i = 0 \<or> \<not> isTableRow (lines ! (i - 1))"
    and "\<not> isDefinitionTerm lines (lines ! i) i"
  shows "processLine opts lines (lines ! i) i st = push (tableNode opts lines (lines ! i) i) st"
  using assms table_row_tests [OF assms(4)]
  by (auto simp add: processLine_def tableRule_def)

lemma header_only_lines:
  "splitLines (trim ''| H1 | H2 |'') = [''| H1 | H2 |'']"
  "isTableRow ''| H1 | H2 |''" "\<not> isAlignRow ''| H1 | H2 |''"
  by code_simp+

lemma header_only_node:
  "tableNode opts [''| H1 | H2 |''] ''| H1 | H2 |'' 0
     = Table 0 (getElementProperties opts tables []) [(ALeft, ''H1''), (ALeft, ''H2'')] []"
  by code_simp


section \<open>Lines of a list nested by indentation\<close>

lemma trim_head: "trim l \<noteq> [] \<Longrightarrow> \<not> isSpace (hd (trim l))"
proof -
  assume a: "trim l \<noteq> []"
  have n: "dropWhile isSpace l \<noteq> []"
  proof
    assume "dropWhile isSpace l = []"
    then have "trim l = []" unfolding trim_def by (simp only: rev.simps dropWhile.simps)
    then show False using a by simp
  qed
  then obtain c u where u: "dropWhile isSpace l = c # u" by (cases "dropWhile isSpace l") auto
  then have "\<not> isSpace c" using hd_dropWhile [OF n] by simp
  then have "trim l = c # trimEnd u" using u trimEnd_Cons [of c u] by (simp add: trim_def trimEnd_def)
  then show ?thesis using \<open>\<not> isSpace c\<close> by simp
qed

lemma reList_first:
  assumes "testStart reList s" "s = [] \<or> \<not> isSpace (hd s)"
  shows "\<exists>c r. s = c # r \<and> (c \<in> set ''-*+'' \<or> isDigit c)"
proof (cases s)
  case Nil
  then show ?thesis using assms(1) by (simp add: reList_def re_defs rep.simps)
next
  case (Cons c r)
  then have sp: "\<not> isSpace c" using assms(2) by simp
  have "c \<in> set ''-*+'' \<or> isDigit c"
  proof (rule ccontr)
    assume "\<not> (c \<in> set ''-*+'' \<or> isDigit c)"
    then have "matchStart reList (c # r) = None"
      using sp by (simp add: reList_def re_defs rep.simps)
    then show False using assms(1) Cons by (simp add: testStart_def)
  qed
  then show ?thesis using Cons by blast
qed

lemma heading_first: "testStart reHeading s \<Longrightarrow> \<exists>t. s = CHR ''#'' # t"
  by (cases s) (simp_all add: reHeading_def re_defs rep.simps split: if_splits)

lemma quote_first: "testStart reQuote s \<Longrightarrow> \<exists>t. s = CHR ''>'' # t"
  by (cases s) (simp_all add: reQuote_def re_defs split: if_splits)

lemma list_line_tests:
  assumes "testStart reList (trim l)"
  shows "\<not> testStart reHeading (trim l)" "\<not> testStart reFence (trim l)" "\<not> testStart reQuote (trim l)"
    "\<not> isTableRow l" "\<not> startsWith '':'' (trim l)"
proof -
  have "trim l = [] \<or> \<not> isSpace (hd (trim l))" using trim_head by blast
  from reList_first [OF assms this]
  obtain c r where c: "trim l = c # r" "c \<in> set ''-*+'' \<or> isDigit c" by blast
  then have n: "c \<noteq> CHR ''#''" "c \<noteq> CHR ''`''" "c \<noteq> CHR ''>''" "c \<noteq> CHR ''|''" "c \<noteq> CHR '':''"
    by (auto simp add: isDigit_def)
  show "\<not> testStart reHeading (trim l)" using heading_first [of "trim l"] c(1) n by auto
  show "\<not> testStart reFence (trim l)" using fence_first [of "trim l"] c(1) n by auto
  show "\<not> testStart reQuote (trim l)" using quote_first [of "trim l"] c(1) n by auto
  show "\<not> isTableRow l" using tableRow_first [of "trim l"] c(1) n by (auto simp add: isTableRow_def)
  show "\<not> startsWith '':'' (trim l)" using c(1) n by (simp add: startsWith_def)
qed

lemma list_line_step:
  assumes "skipLines st = 0" "\<not> maxNestingLevel opts < int (nestingLevel st)" "\<not> inCodeBlock st"
    and "testStart reList (trim l)" "\<not> isDefinitionTerm lines l j"
  shows "\<exists>n. \<not> isError n
           \<and> processLine opts lines l j st
               = (push n st) \<lparr> nestingLevel := (if byImageRule l then nestingLevel st else indentOf l div 2) \<rparr>"
proof (cases "testStart reTask (trim l)")
  case True
  then have "processLine opts lines l j st = taskRule opts l j st"
    using assms by (simp add: processLine_def)
  then have "processLine opts lines l j st
      = (push (TaskItem j (objSet ''style'' (marginStyle (indentOf l div 2)) (getElementProperties opts lists []))
                 (includesStr ''[x]'' l) (processInlineFormatting opts (replaceStart reTaskPrefix nothing l))) st)
          \<lparr> nestingLevel := (if byImageRule l then nestingLevel st else indentOf l div 2) \<rparr>"
    using True by (simp add: taskRule_def Let_def push_def byImageRule_def)
  then show ?thesis
    by (intro exI [of _ "TaskItem j (objSet ''style'' (marginStyle (indentOf l div 2)) (getElementProperties opts lists []))
                 (includesStr ''[x]'' l) (processInlineFormatting opts (replaceStart reTaskPrefix nothing l))"]) simp
next
  case nt: False
  show ?thesis
  proof (cases "testAnywhere reImage (trim l)")
    case True
    then obtain p r c where m: "search reImage (trim l) = Some (p, r, c)"
      by (auto simp add: testAnywhere_def)
    have "processLine opts lines l j st = imageRule opts l j st"
      using assms nt True list_line_tests [OF assms(4)] by (simp add: processLine_def)
    then have "processLine opts lines l j st
      = (push (Image j ([(''src'', Str (cap 2 c)), (''alt'', Str (cap 1 c)),
                              (''title'', if cap 3 c \<noteq> [] then Str (cap 3 c) else Undefined)]
                             @ getElementProperties opts images [])) st)
          \<lparr> nestingLevel := (if byImageRule l then nestingLevel st else indentOf l div 2) \<rparr>"
      using nt True m by (simp add: imageRule_def push_def byImageRule_def)
    then show ?thesis
      by (intro exI [of _ "Image j ([(''src'', Str (cap 2 c)), (''alt'', Str (cap 1 c)),
                              (''title'', if cap 3 c \<noteq> [] then Str (cap 3 c) else Undefined)]
                             @ getElementProperties opts images [])"]) simp
  next
    case False
    have "processLine opts lines l j st = listRule opts l j st"
      using assms nt False list_line_tests [OF assms(4)] by (simp add: processLine_def)
    then have "processLine opts lines l j st
      = (push (ListNode j (testStart reOrdered l)
                 (objSet ''style'' (marginStyle (indentOf l div 2)) (getElementProperties opts lists []))
                 (processInlineFormatting opts (replaceStart reList nothing l))) st)
          \<lparr> nestingLevel := (if byImageRule l then nestingLevel st else indentOf l div 2) \<rparr>"
      using nt False by (simp add: listRule_def Let_def push_def byImageRule_def)
    then show ?thesis
      by (intro exI [of _ "ListNode j (testStart reOrdered l)
                 (objSet ''style'' (marginStyle (indentOf l div 2)) (getElementProperties opts lists []))
                 (processInlineFormatting opts (replaceStart reList nothing l))"]) simp
  qed
qed


lemma nestedBy2_nth:
  "nestedBy2 lines \<Longrightarrow> j < length lines \<Longrightarrow> indentOf (lines ! j) = 2 * j \<and> testStart reList (trim (lines ! j))"
  by (simp add: nestedBy2_def list_all_length nth_enumerate_eq)

lemma nestedBy2_not_term:
  assumes "nestedBy2 lines"
  shows "\<not> isDefinitionTerm lines l j"
proof (cases "j + 1 < length lines")
  case True
  then have "testStart reList (trim (lines ! (j + 1)))"
    using nestedBy2_nth [OF assms] by blast
  then show ?thesis
    using list_line_tests(5) by (simp add: isDefinitionTerm_def)
next
  case False
  then show ?thesis by (simp add: isDefinitionTerm_def)
qed

lemma nested_step:
  assumes "nestedBy2 lines" "m < length lines"
    and "skipLines st = 0" "\<not> inCodeBlock st" "\<not> maxNestingLevel opts < int (nestingLevel st)"
  shows "\<exists>n. \<not> isError n
           \<and> processLine opts lines (lines ! m) m st
               = (push n st) \<lparr> nestingLevel := (if byImageRule (lines ! m) then nestingLevel st else m) \<rparr>"
proof -
  have a: "indentOf (lines ! m) = 2 * m" "testStart reList (trim (lines ! m))"
    using nestedBy2_nth [OF assms(1,2)] by simp_all
  have d: "indentOf (lines ! m) div 2 = m"
    using a(1) by simp
  from list_line_step [OF assms(3,5,4) a(2) nestedBy2_not_term [OF assms(1)], of m]
  show ?thesis unfolding d .
qed

lemma nested_prefix:
  assumes "nestedBy2 lines"
  shows "m \<le> length lines \<Longrightarrow> int m \<le> maxNestingLevel opts + 1 \<Longrightarrow>
         skipLines (run opts lines [0..<m] initialState) = 0
         \<and> \<not> inCodeBlock (run opts lines [0..<m] initialState)
         \<and> length (html (run opts lines [0..<m] initialState)) = m
         \<and> \<not> list_ex isError (html (run opts lines [0..<m] initialState))
         \<and> nestingLevel (run opts lines [0..<m] initialState) \<le> m - 1"
proof (induction m)
  case 0
  show ?case by (simp add: run_Nil initialState_def)
next
  case (Suc m)
  let ?s = "run opts lines [0..<m] initialState"
  have ih: "skipLines ?s = 0" "\<not> inCodeBlock ?s" "length (html ?s) = m" "\<not> list_ex isError (html ?s)"
      "nestingLevel ?s \<le> m - 1"
    using Suc.IH Suc.prems by simp_all
  have g: "\<not> maxNestingLevel opts < int (nestingLevel ?s)"
    using ih(5) Suc.prems(2) by simp
  have m: "m < length lines" using Suc.prems by simp
  from nested_step [OF assms m ih(1,2) g]
  obtain n where n: "\<not> isError n"
      "processLine opts lines (lines ! m) m ?s
         = (push n ?s) \<lparr> nestingLevel := (if byImageRule (lines ! m) then nestingLevel ?s else m) \<rparr>"
    by blast
  have r: "run opts lines [0..<Suc m] initialState = processLine opts lines (lines ! m) m ?s"
    by (simp add: run_append run_Cons run_Nil)
  have l: "nestingLevel ?s \<le> m"
    using ih(5) by arith
  show ?case
    unfolding r n(2) using ih(1,2,3,4) n(1) l by (simp add: push_def)
qed


lemma nested_list_7:
  assumes "maxNestingLevel opts = 3" "splitLines (trim markdown) = lines" "length lines = 7" "nestedBy2 lines"
  shows "\<not> byImageRule (lines ! 4)
         \<Longrightarrow> \<exists>ns. parse markdown opts = ns @ [ErrorP 5 nestingMessage, ErrorP 6 nestingMessage]
                  \<and> length ns = 5 \<and> \<not> list_ex isError ns"
    and "byImageRule (lines ! 4) \<Longrightarrow> \<not> byImageRule (lines ! 5)
         \<Longrightarrow> \<exists>ns. parse markdown opts = ns @ [ErrorP 6 nestingMessage]
                  \<and> length ns = 6 \<and> \<not> list_ex isError ns"
    and "byImageRule (lines ! 4) \<Longrightarrow> byImageRule (lines ! 5)
         \<Longrightarrow> length (parse markdown opts) = 7 \<and> \<not> list_ex isError (parse markdown opts)"
proof -
  let ?s4 = "run opts lines [0..<4] initialState"
  let ?s5 = "run opts lines [0..<5] initialState"
  let ?s6 = "run opts lines [0..<6] initialState"
  have p: "parse markdown opts = html (run opts lines [0..<7] initialState)"
    using assms(2,3) by (simp add: parse_def Let_def)
  have s4: "skipLines ?s4 = 0" "\<not> inCodeBlock ?s4" "length (html ?s4) = 4" "\<not> list_ex isError (html ?s4)"
      "nestingLevel ?s4 \<le> 3"
    using nested_prefix [OF assms(4), of 4 opts] assms(1,3) by simp_all
  have g4: "\<not> maxNestingLevel opts < int (nestingLevel ?s4)"
    using s4(5) assms(1) by simp
  have r5: "?s5 = processLine opts lines (lines ! 4) 4 ?s4"
    using run_split [of 4 5 opts lines initialState] by (simp add: run_Cons run_Nil)
  have r6: "?s6 = processLine opts lines (lines ! 5) 5 ?s5"
    using run_split [of 5 6 opts lines initialState] by (simp add: run_Cons run_Nil)
  have r7: "run opts lines [0..<7] initialState = processLine opts lines (lines ! 6) 6 ?s6"
    using run_split [of 6 7 opts lines initialState] by (simp add: run_Cons run_Nil)
  from nested_step [OF assms(4) _ s4(1,2) g4, of 4] assms(3)
  obtain n4 where n4: "\<not> isError n4"
      "?s5 = (push n4 ?s4) \<lparr> nestingLevel := (if byImageRule (lines ! 4) then nestingLevel ?s4 else 4) \<rparr>"
    unfolding r5 by auto
  have s5: "skipLines ?s5 = 0" "\<not> inCodeBlock ?s5" "html ?s5 = html ?s4 @ [n4]"
    unfolding n4(2) using s4 by (simp_all add: push_def)
  {
    assume a: "\<not> byImageRule (lines ! 4)"
    then have "maxNestingLevel opts < int (nestingLevel ?s5)"
      unfolding n4(2) using assms(1) by simp
    from run_errors [OF s5(1) this, of lines "[5..<7]"]
    have "html (run opts lines [5..<7] ?s5) = html ?s5 @ map (\<lambda>i. ErrorP i nestingMessage) [5..<7]"
      by simp
    moreover have "[5..<7] = [5, 6::nat]"
      by (simp add: upt_rec)
    moreover have "run opts lines [0..<7] initialState = run opts lines [5..<7] ?s5"
      using run_split [of 5 7 opts lines initialState] by simp
    ultimately have "parse markdown opts = (html ?s4 @ [n4]) @ [ErrorP 5 nestingMessage, ErrorP 6 nestingMessage]"
      using p s5(3) by simp
    moreover have "length (html ?s4 @ [n4]) = 5" "\<not> list_ex isError (html ?s4 @ [n4])"
      using s4(3,4) n4(1) by simp_all
    ultimately show "\<exists>ns. parse markdown opts = ns @ [ErrorP 5 nestingMessage, ErrorP 6 nestingMessage]
                  \<and> length ns = 5 \<and> \<not> list_ex isError ns"
      by blast
  }
  {
    assume a: "byImageRule (lines ! 4)"
    then have l5: "nestingLevel ?s5 \<le> 3"
      unfolding n4(2) using s4(5) by (simp add: push_def)
    then have g5: "\<not> maxNestingLevel opts < int (nestingLevel ?s5)"
      using assms(1) by simp
    from nested_step [OF assms(4) _ s5(1,2) g5, of 5] assms(3)
    obtain n5 where n5: "\<not> isError n5"
        "?s6 = (push n5 ?s5) \<lparr> nestingLevel := (if byImageRule (lines ! 5) then nestingLevel ?s5 else 5) \<rparr>"
      unfolding r6 by auto
    have s6: "skipLines ?s6 = 0" "\<not> inCodeBlock ?s6" "html ?s6 = html ?s4 @ [n4, n5]"
      unfolding n5(2) using s5 by (simp_all add: push_def)
    {
      assume b: "\<not> byImageRule (lines ! 5)"
      then have "maxNestingLevel opts < int (nestingLevel ?s6)"
        unfolding n5(2) using assms(1) by simp
      then have "run opts lines [0..<7] initialState = push (ErrorP 6 nestingMessage) ?s6"
        unfolding r7 using s6(1) by (simp add: processLine_guard)
      then have "parse markdown opts = (html ?s4 @ [n4, n5]) @ [ErrorP 6 nestingMessage]"
        using p s6(3) by (simp add: push_def)
      moreover have "length (html ?s4 @ [n4, n5]) = 6" "\<not> list_ex isError (html ?s4 @ [n4, n5])"
        using s4(3,4) n4(1) n5(1) by simp_all
      ultimately show "\<exists>ns. parse markdown opts = ns @ [ErrorP 6 nestingMessage]
                  \<and> length ns = 6 \<and> \<not> list_ex isError ns"
        by blast
    }
    {
      assume b: "byImageRule (lines ! 5)"
      then have "nestingLevel ?s6 \<le> 3"
        unfolding n5(2) using l5 by (simp add: push_def)
      then have g6: "\<not> maxNestingLevel opts < int (nestingLevel ?s6)"
        using assms(1) by simp
      from nested_step [OF assms(4) _ s6(1,2) g6, of 6] assms(3)
      obtain n6 where n6: "\<not> isError n6"
          "run opts lines [0..<7] initialState
             = (push n6 ?s6) \<lparr> nestingLevel := (if byImageRule (lines ! 6) then nestingLevel ?s6 else 6) \<rparr>"
        unfolding r7 by auto
      have "parse markdown opts = html ?s4 @ [n4, n5, n6]"
        unfolding p n6(2) using s6(3) by (simp add: push_def)
      then show "length (parse markdown opts) = 7 \<and> \<not> list_ex isError (parse markdown opts)"
        using s4(3,4) n4(1) n5(1) n6(1) by simp
    }
  }
qed


section \<open>Lines inside an open fence\<close>

lemma in_fence_step:
  assumes "inCodeBlock st" "\<not> testStart reFence (trim line)"
  shows "\<exists>ns. html (processLine opts lines line i st) = html st @ ns \<and> length ns \<le> 1
            \<and> list_all (\<lambda>n. beforeFence n \<and> nodeIndex n = i) ns"
  using assms unfolding processLine_def
  by (auto simp add: definitionListRule_def taskRule_def headingRule_def push_def Let_def)

lemma buffer_step:
  assumes "skipLines st = 0" "\<not> maxNestingLevel opts < int (nestingLevel st)"
    and "\<not> isDefinitionTerm lines line i" "\<not> testStart reTask (trim line)"
    and "\<not> testStart reHeading (trim line)" "\<not> testStart reFence (trim line)" "inCodeBlock st"
  shows "processLine opts lines line i st = st \<lparr> codeBlock := codeBlock st @ [line] \<rparr>"
  using assms by (simp add: processLine_def)

lemma run_Suc: "run opts lines [0..<Suc j] st = processLine opts lines (lines ! j) j (run opts lines [0..<j] st)"
  by (simp add: run_append run_Cons run_Nil)

lemma concat_map_skip:
  "(\<And>x. x \<in> set xs \<Longrightarrow> P x \<Longrightarrow> f x = []) \<Longrightarrow>
   concat (map f xs) = concat (map f (filter (\<lambda>x. \<not> P x) xs))"
  by (induction xs) auto

lemma open_fence_scan:
  assumes "inCodeBlock (run opts lines [0..<k] initialState)"
    and "\<forall>j. k \<le> j \<and> j < n \<longrightarrow> \<not> testStart reFence (trim (lines ! j))"
  shows "k \<le> m \<Longrightarrow> m \<le> n \<Longrightarrow> inCodeBlock (run opts lines [0..<m] initialState)"
    and "k \<le> j \<Longrightarrow> j < n \<Longrightarrow>
         html (run opts lines [0..<Suc j] initialState)
           = html (run opts lines [0..<j] initialState) @ emitted opts lines j
         \<and> length (emitted opts lines j) \<le> 1
         \<and> list_all (\<lambda>n. beforeFence n \<and> nodeIndex n = j) (emitted opts lines j)"
    and "k \<le> j \<Longrightarrow> j < n \<Longrightarrow> buffered opts lines j \<Longrightarrow>
         emitted opts lines j = []
         \<and> run opts lines [0..<Suc j] initialState
             = (run opts lines [0..<j] initialState)
                 \<lparr> codeBlock := codeBlock (run opts lines [0..<j] initialState) @ [lines ! j] \<rparr>"
    and "k \<le> m \<Longrightarrow> m \<le> n \<Longrightarrow>
         html (run opts lines [0..<m] initialState)
           = html (run opts lines [0..<k] initialState)
             @ concat (map (emitted opts lines) (filter (\<lambda>j. \<not> buffered opts lines j) [k..<m]))"
    and "k \<le> m \<Longrightarrow> m \<le> n \<Longrightarrow> n \<le> length lines \<Longrightarrow>
         \<forall>j. k \<le> j \<and> j < m \<longrightarrow> buffered opts lines j \<Longrightarrow>
         codeBlock (run opts lines [0..<m] initialState)
           = codeBlock (run opts lines [0..<k] initialState) @ take (m - k) (drop k lines)"
proof -
  have o: "inCodeBlock (run opts lines [0..<m] initialState)" if "k \<le> m" "m \<le> n" for m
  proof -
    have "\<forall>j \<in> set [k..<m]. \<not> testStart reFence (trim (lines ! j))"
      using assms(2) that by simp
    from fence_open_run [OF assms(1) this, of opts]
    have "inCodeBlock (run opts lines [k..<m] (run opts lines [0..<k] initialState))"
      by blast
    then show ?thesis
      using run_split [OF that(1), of opts lines initialState] by simp
  qed
  show "k \<le> m \<Longrightarrow> m \<le> n \<Longrightarrow> inCodeBlock (run opts lines [0..<m] initialState)"
    by (rule o)
  have e: "html (run opts lines [0..<Suc j] initialState)
           = html (run opts lines [0..<j] initialState) @ emitted opts lines j
         \<and> length (emitted opts lines j) \<le> 1
         \<and> list_all (\<lambda>n. beforeFence n \<and> nodeIndex n = j) (emitted opts lines j)"
    if "k \<le> j" "j < n" for j
  proof -
    have "inCodeBlock (run opts lines [0..<j] initialState)" "\<not> testStart reFence (trim (lines ! j))"
      using o [of j] assms(2) that by simp_all
    from in_fence_step [OF this, of opts lines j]
    obtain ns where "html (run opts lines [0..<Suc j] initialState)
          = html (run opts lines [0..<j] initialState) @ ns" "length ns \<le> 1"
        "list_all (\<lambda>n. beforeFence n \<and> nodeIndex n = j) ns"
      unfolding run_Suc by blast
    then show ?thesis by (simp add: emitted_def)
  qed
  show "k \<le> j \<Longrightarrow> j < n \<Longrightarrow>
         html (run opts lines [0..<Suc j] initialState)
           = html (run opts lines [0..<j] initialState) @ emitted opts lines j
         \<and> length (emitted opts lines j) \<le> 1
         \<and> list_all (\<lambda>n. beforeFence n \<and> nodeIndex n = j) (emitted opts lines j)"
    by (rule e)
  have b: "emitted opts lines j = []
         \<and> run opts lines [0..<Suc j] initialState
             = (run opts lines [0..<j] initialState)
                 \<lparr> codeBlock := codeBlock (run opts lines [0..<j] initialState) @ [lines ! j] \<rparr>"
    if "buffered opts lines j" for j
  proof -
    let ?s = "run opts lines [0..<j] initialState"
    from that have "skipLines ?s = 0" "\<not> maxNestingLevel opts < int (nestingLevel ?s)"
        "\<not> isDefinitionTerm lines (lines ! j) j" "\<not> testStart reTask (trim (lines ! j))"
        "\<not> testStart reHeading (trim (lines ! j))" "\<not> testStart reFence (trim (lines ! j))" "inCodeBlock ?s"
      by (simp_all add: buffered_def Let_def)
    from buffer_step [OF this]
    have "run opts lines [0..<Suc j] initialState = ?s \<lparr> codeBlock := codeBlock ?s @ [lines ! j] \<rparr>"
      unfolding run_Suc .
    then show ?thesis by (simp add: emitted_def)
  qed
  show "k \<le> j \<Longrightarrow> j < n \<Longrightarrow> buffered opts lines j \<Longrightarrow>
         emitted opts lines j = []
         \<and> run opts lines [0..<Suc j] initialState
             = (run opts lines [0..<j] initialState)
                 \<lparr> codeBlock := codeBlock (run opts lines [0..<j] initialState) @ [lines ! j] \<rparr>"
    by (rule b)
  have t: "m \<le> n \<Longrightarrow> html (run opts lines [0..<m] initialState)
           = html (run opts lines [0..<k] initialState) @ concat (map (emitted opts lines) [k..<m])"
    if "k \<le> m" for m
    using that
  proof (induction m rule: dec_induct)
    case base
    show ?case by simp
  next
    case (step m)
    then show ?case using e [of m] by simp
  qed
  show "k \<le> m \<Longrightarrow> m \<le> n \<Longrightarrow>
         html (run opts lines [0..<m] initialState)
           = html (run opts lines [0..<k] initialState)
             @ concat (map (emitted opts lines) (filter (\<lambda>j. \<not> buffered opts lines j) [k..<m]))"
    using t [of m] concat_map_skip [of "[k..<m]" "buffered opts lines" "emitted opts lines"] b
    by simp
  show "k \<le> m \<Longrightarrow> m \<le> n \<Longrightarrow> n \<le> length lines \<Longrightarrow>
         \<forall>j. k \<le> j \<and> j < m \<longrightarrow> buffered opts lines j \<Longrightarrow>
         codeBlock (run opts lines [0..<m] initialState)
           = codeBlock (run opts lines [0..<k] initialState) @ take (m - k) (drop k lines)"
  proof (induction m rule: dec_induct)
    case base
    show ?case by simp
  next
    case (step m)
    have "codeBlock (run opts lines [0..<m] initialState)
           = codeBlock (run opts lines [0..<k] initialState) @ take (m - k) (drop k lines)"
      using step by simp
    moreover have "codeBlock (run opts lines [0..<Suc m] initialState)
        = codeBlock (run opts lines [0..<m] initialState) @ [lines ! m]"
      using b [of m] step.prems(3) step.hyps by simp
    moreover have "take (Suc m - k) (drop k lines) = take (m - k) (drop k lines) @ [lines ! m]"
    proof -
      have "m - k < length (drop k lines)"
        using step.hyps step.prems by simp
      from take_Suc_conv_app_nth [OF this]
      show ?thesis using step.hyps step.prems by (simp add: Suc_diff_le)
    qed
    ultimately show ?case by simp
  qed
qed


section \<open>The claims\<close>

text \<open>
  C1. The claim: with \<open>sanitizeHtml\<close> at its default (true) \<open>parse\<close> escapes the raw
  characters \<^verbatim>\<open>& < > " '\<close> of the input before inline markup is injected, and with
  \<open>sanitizeHtml: false\<close> they pass through. In the source the escaping function is commented
  out (lines 145-154) and the option is read and never used: the default is true, the text
  \<^verbatim>\<open><script>\<close> reaches the \<^verbatim>\<open>__html\<close> of the paragraph unescaped, and for every input and
  all options the result with the option on is the result with the option off.
\<close>

theorem sanitizeHtml_default_does_not_escape:
  "sanitizeHtml defaultOptions
   \<and> parse ''<script>'' defaultOptions = [Paragraph 0 noProps ''<script>'']
   \<and> parse markdown (opts \<lparr> sanitizeHtml := True \<rparr>) = parse markdown (opts \<lparr> sanitizeHtml := False \<rparr>)"
proof -
  have "sanitizeHtml defaultOptions"
    by (simp add: defaultOptions_def)
  moreover have "parse ''<script>'' defaultOptions = [Paragraph 0 noProps ''<script>'']"
    by code_simp
  ultimately show ?thesis
    by (simp add: sanitizeHtml_unused)
qed

text \<open>
  C2. The claim: a multi-line construct (code block, table, definition list) yields exactly
  one node, and no line that it consumed is classified again or contributes a second node.
  The table rule collects the alignment row and the body rows behind the header and moves
  \<open>index\<close> past each of them (lines 390 and 400, \<^verbatim>\<open>index++; // Skip alignment row\<close>), but
  \<open>index\<close> is the parameter of the callback, so \<^verbatim>\<open>forEach\<close> visits the collected rows again.
  They are to be dropped by the guard of line 365, ``Skip if we're in the middle of
  processing a table''; the definition-list rule, which passes its own lines by \<open>skipLines\<close>,
  is tried before that guard. In the input of the three lines \<^verbatim>\<open>| H1 | H2 |\<close>,
  \<^verbatim>\<open>| a | b |\<close> and \<^verbatim>\<open>: d\<close> the second line is a body row of the table: the table rule
  collects it and the table node, pushed at the first line, holds it. The line is then
  classified again and yields a second node, a definition list with the row as its term.
\<close>

theorem consumed_row_second_node:
  "parse (''| H1 | H2 |'' @ [LF] @ ''| a | b |'' @ [LF] @ '': d'') defaultOptions
     = [Table 1 noProps [(ALeft, ''H1''), (ALeft, ''H2'')] [[(ALeft, ''a''), (ALeft, ''b'')]],
        DefinitionList 1 noProps ''| a | b |'' [''d'']]
   \<and> bodyRows (splitLines (trim (''| H1 | H2 |'' @ [LF] @ ''| a | b |'' @ [LF] @ '': d''))) 0 = [''| a | b |'']
   \<and> html (run defaultOptions (splitLines (trim (''| H1 | H2 |'' @ [LF] @ ''| a | b |'' @ [LF] @ '': d'')))
             [0..<1] initialState)
       = [Table 1 noProps [(ALeft, ''H1''), (ALeft, ''H2'')] [[(ALeft, ''a''), (ALeft, ''b'')]]]"
  by code_simp

text \<open>
  C3, as claimed: every line of \<open>N\<close> leading \<^verbatim>\<open>#\<close> (\<open>N\<close> from 1 to 6), white space and text
  yields a heading of level \<open>N\<close>, and every line with more than 6 leading \<^verbatim>\<open>#\<close> falls through
  to the paragraph rule. The heading rule is the third rule of the callback and the image
  rule comes before the paragraph rule: a line of seven \<^verbatim>\<open>#\<close> with an image token yields an
  image node, and a heading line before a line that starts with a colon is the term of a
  definition list.
\<close>

theorem heading_line_other_rules:
  "parse ''####### ![a](b)'' defaultOptions
     = [Image 0 [(''src'', Str ''b''), (''alt'', Str ''a''), (''title'', Undefined),
                 (''style'', Undefined), (''className'', Undefined)]]
   \<and> parse (''# T'' @ [LF] @ '': d'') defaultOptions = [DefinitionList 0 noProps ''# T'' [''d'']]"
  by code_simp

text \<open>
  C3, as amended: for a line that the callback classifies (no pending definition line, level
  not above the ceiling, not the term of a definition list), \<open>N\<close> leading \<^verbatim>\<open>#\<close> with \<open>N\<close>
  from 1 to 6, a white-space character and text that is not blank give a heading node of
  level \<open>N\<close>. With more than 6 leading \<^verbatim>\<open>#\<close> the heading rule does not match, and outside an
  open fence the line yields an image node if it has an image token and the paragraph of
  its formatted text otherwise.
\<close>

theorem heading_rule_levels:
  assumes "skipLines st = 0" and "\<not> maxNestingLevel opts < int (nestingLevel st)"
    and "\<not> isDefinitionTerm lines line index"
  shows "(1 \<le> N \<and> N \<le> 6 \<and> isSpace w \<and> (\<exists>x \<in> set body. \<not> isSpace x)
          \<and> line = replicate N CHR ''#'' @ w # body
        \<longrightarrow> (\<exists>ident txt. processLine opts lines line index st
                = push (Heading index N ident (getElementProperties opts headings []) txt) st))
       \<and> (6 < N \<and> line = replicate N CHR ''#'' @ rest
        \<longrightarrow> \<not> testStart reHeading (trim line)
            \<and> (\<not> inCodeBlock st \<longrightarrow>
                 (if testAnywhere reImage (trim line)
                  then \<exists>props. processLine opts lines line index st = push (Image index props) st
                  else processLine opts lines line index st
                         = push (Paragraph index (getElementProperties opts paragraphs [])
                                   (processInlineFormatting opts (trim line))) st)))"
  using heading_line_step [OF assms, of N w body] long_hash_line_step [OF assms, of N rest]
  by auto

theorem heading_rule_levels_witness:
  "(\<exists>ident txt. processLine defaultOptions [''### Title''] ''### Title'' 0 initialState
        = push (Heading 0 3 ident (getElementProperties defaultOptions headings []) txt) initialState)
   \<and> \<not> testStart reHeading (trim ''####### Title'')
   \<and> processLine defaultOptions [''####### Title''] ''####### Title'' 0 initialState
        = push (Paragraph 0 (getElementProperties defaultOptions paragraphs [])
                  (processInlineFormatting defaultOptions (trim ''####### Title''))) initialState
   \<and> parse ''### Title'' defaultOptions = [Heading 0 3 Undefined noProps ''Title'']
   \<and> parse ''####### Title'' defaultOptions = [Paragraph 0 noProps ''####### Title'']"
proof -
  have s: "skipLines initialState = 0" "\<not> maxNestingLevel defaultOptions < int (nestingLevel initialState)"
      "\<not> inCodeBlock initialState"
    by (simp_all add: initialState_def defaultOptions_def)
  have d: "\<not> isDefinitionTerm [l] l 0" for l
    by (simp add: isDefinitionTerm_def)
  have sp: "isSpace CHR '' ''" "\<exists>x \<in> set ''Title''. \<not> isSpace x"
    by (simp_all add: isSpace_def)
  have l3: "''### Title'' = replicate 3 CHR ''#'' @ CHR '' '' # ''Title''"
    by (simp add: numeral_eq_Suc)
  have l7: "''####### Title'' = replicate 7 CHR ''#'' @ '' Title''"
    by (simp add: numeral_eq_Suc)
  have i: "\<not> testAnywhere reImage (trim ''####### Title'')"
    by code_simp
  have n: "1 \<le> (3::nat)" "3 \<le> (6::nat)" "6 < (7::nat)"
    by simp_all
  have "\<exists>ident txt. processLine defaultOptions [''### Title''] ''### Title'' 0 initialState
        = push (Heading 0 3 ident (getElementProperties defaultOptions headings []) txt) initialState"
    using heading_rule_levels [where st = initialState and opts = defaultOptions
        and lines = "[''### Title'']" and line = "''### Title''" and index = 0 and N = 3
        and w = "CHR '' ''" and body = "''Title''", OF s(1,2) d] sp l3 n
    by blast
  moreover have "\<not> testStart reHeading (trim ''####### Title'')
      \<and> processLine defaultOptions [''####### Title''] ''####### Title'' 0 initialState
        = push (Paragraph 0 (getElementProperties defaultOptions paragraphs [])
                  (processInlineFormatting defaultOptions (trim ''####### Title''))) initialState"
    using heading_rule_levels [where st = initialState and opts = defaultOptions
        and lines = "[''####### Title'']" and line = "''####### Title''" and index = 0 and N = 7
        and rest = "'' Title''", OF s(1,2) d] l7 i s(3) n
    by presburger
  moreover have "parse ''### Title'' defaultOptions = [Heading 0 3 Undefined noProps ''Title'']"
      "parse ''####### Title'' defaultOptions = [Paragraph 0 noProps ''####### Title'']"
    by code_simp+
  ultimately show ?thesis by blast
qed

text \<open>
  C4, as claimed: with \<open>maxNestingLevel = 3\<close> every list nested 7 levels deep, with 2 more
  spaces per level, yields at least one error node. The level is set by the task rule and
  by the list rule; the image rule is tried before the list rule and leaves the level as it
  is. In the list below every line passes the test of the list rule and line \<open>j\<close> is indented
  by \<open>2 * j\<close> spaces; the items of lines 4 and 5 are images, so the level is 3 up to line 6
  and no line yields the error node.
\<close>

theorem nesting_ceiling_three_images:
  "parse nestedImages7 ceiling3
     = [ListNode 0 False (ulProps 0) ''Level 1'', ListNode 1 False (ulProps 20) ''Level 2'',
        ListNode 2 False (ulProps 40) ''Level 3'', ListNode 3 False (ulProps 60) ''Level 4'',
        Image 4 [(''src'', Str ''b''), (''alt'', Str ''a''), (''title'', Undefined),
                 (''style'', Undefined), (''className'', Undefined)],
        Image 5 [(''src'', Str ''d''), (''alt'', Str ''c''), (''title'', Undefined),
                 (''style'', Undefined), (''className'', Undefined)],
        ListNode 6 False (ulProps 120) ''Level 7'']
   \<and> maxNestingLevel ceiling3 = 3
   \<and> map indentOf (splitLines (trim nestedImages7)) = [0, 2, 4, 6, 8, 10, 12]
   \<and> list_all (\<lambda>l. testStart reList (trim l)) (splitLines (trim nestedImages7))"
  by code_simp

text \<open>
  C4, as amended: with \<open>maxNestingLevel = 3\<close> and a list of 7 lines, line \<open>j\<close> passing the
  test of the list rule behind \<open>2 * j\<close> white-space characters, the output has an error node
  ``Maximum nesting level reached'' if and only if line 4 or line 5 is not classified by the
  image rule. If line 4 is not, lines 5 and 6 yield the error node, behind five nodes that
  are not error nodes; if line 4 is and line 5 is not, line 6 yields the error node, behind
  six such nodes. In every scan, a line that is reached with the level above the ceiling
  yields exactly the error node: the state after it is the state before it with that node
  pushed, so no other rule classifies the line.
\<close>

theorem nesting_ceiling_error_node:
  "(maxNestingLevel opts = 3 \<and> splitLines (trim markdown) = lines \<and> length lines = 7 \<and> nestedBy2 lines
    \<longrightarrow> (list_ex isError (parse markdown opts) = (\<not> (byImageRule (lines ! 4) \<and> byImageRule (lines ! 5))))
        \<and> (\<not> byImageRule (lines ! 4)
           \<longrightarrow> (\<exists>ns. parse markdown opts = ns @ [ErrorP 5 nestingMessage, ErrorP 6 nestingMessage]
                     \<and> length ns = 5 \<and> \<not> list_ex isError ns))
        \<and> (byImageRule (lines ! 4) \<and> \<not> byImageRule (lines ! 5)
           \<longrightarrow> (\<exists>ns. parse markdown opts = ns @ [ErrorP 6 nestingMessage]
                     \<and> length ns = 6 \<and> \<not> list_ex isError ns)))
   \<and> (k < length lines
        \<and> maxNestingLevel opts < int (nestingLevel (run opts lines [0..<k] initialState))
      \<longrightarrow> run opts lines [0..<Suc k] initialState
            = push (ErrorP k nestingMessage) (run opts lines [0..<k] initialState))"
proof (intro conjI impI)
  assume h: "maxNestingLevel opts = 3 \<and> splitLines (trim markdown) = lines \<and> length lines = 7 \<and> nestedBy2 lines"
  then have a: "maxNestingLevel opts = 3" "splitLines (trim markdown) = lines" "length lines = 7" "nestedBy2 lines"
    by simp_all
  note n = nested_list_7 [OF a]
  show "list_ex isError (parse markdown opts) = (\<not> (byImageRule (lines ! 4) \<and> byImageRule (lines ! 5)))"
  proof (cases "byImageRule (lines ! 4)")
    case False
    from n(1) [OF False] show ?thesis using False by (auto simp add: nestingMessage_def)
  next
    case True
    show ?thesis
    proof (cases "byImageRule (lines ! 5)")
      case False
      from n(2) [OF True False] show ?thesis using False by (auto simp add: nestingMessage_def)
    next
      case b: True
      from n(3) [OF True b] show ?thesis using True b by simp
    qed
  qed
next
  assume h: "maxNestingLevel opts = 3 \<and> splitLines (trim markdown) = lines \<and> length lines = 7 \<and> nestedBy2 lines"
    and b: "\<not> byImageRule (lines ! 4)"
  from h have a: "maxNestingLevel opts = 3" "splitLines (trim markdown) = lines" "length lines = 7" "nestedBy2 lines"
    by simp_all
  show "\<exists>ns. parse markdown opts = ns @ [ErrorP 5 nestingMessage, ErrorP 6 nestingMessage]
                     \<and> length ns = 5 \<and> \<not> list_ex isError ns"
    by (rule nested_list_7(1) [OF a b])
next
  assume h: "maxNestingLevel opts = 3 \<and> splitLines (trim markdown) = lines \<and> length lines = 7 \<and> nestedBy2 lines"
    and b: "byImageRule (lines ! 4) \<and> \<not> byImageRule (lines ! 5)"
  from h have a: "maxNestingLevel opts = 3" "splitLines (trim markdown) = lines" "length lines = 7" "nestedBy2 lines"
    by simp_all
  show "\<exists>ns. parse markdown opts = ns @ [ErrorP 6 nestingMessage]
                     \<and> length ns = 6 \<and> \<not> list_ex isError ns"
    using nested_list_7(2) [OF a] b by blast
next
  assume h: "k < length lines
        \<and> maxNestingLevel opts < int (nestingLevel (run opts lines [0..<k] initialState))"
  let ?st = "run opts lines [0..<k] initialState"
  have "guarded opts ?st" by (rule guarded_run [OF guarded_initial])
  with h have "skipLines ?st = 0" by (simp add: guarded_def)
  with h show "run opts lines [0..<Suc k] initialState = push (ErrorP k nestingMessage) ?st"
    by (simp add: run_append run_Cons run_Nil processLine_guard)
qed

theorem nesting_ceiling_error_node_witness:
  "parse nestedList7 ceiling3
     = [ListNode 0 False (ulProps 0) ''Level 1'', ListNode 1 False (ulProps 20) ''Level 2'',
        ListNode 2 False (ulProps 40) ''Level 3'', ListNode 3 False (ulProps 60) ''Level 4'',
        ListNode 4 False (ulProps 80) ''Level 5'',
        ErrorP 5 ''Maximum nesting level reached'', ErrorP 6 ''Maximum nesting level reached'']
   \<and> list_ex isError (parse nestedList7 ceiling3)
   \<and> (\<exists>ns. parse nestedList7 ceiling3 = ns @ [ErrorP 5 nestingMessage, ErrorP 6 nestingMessage]
            \<and> length ns = 5 \<and> \<not> list_ex isError ns)
   \<and> run ceiling3 (splitLines (trim nestedList7)) [0..<Suc 5] initialState
        = push (ErrorP 5 nestingMessage) (run ceiling3 (splitLines (trim nestedList7)) [0..<5] initialState)"
proof -
  have h: "maxNestingLevel ceiling3 = 3" "length (splitLines (trim nestedList7)) = 7"
      "nestedBy2 (splitLines (trim nestedList7))" "\<not> byImageRule (splitLines (trim nestedList7) ! 4)"
    by code_simp+
  have e: "parse nestedList7 ceiling3
     = [ListNode 0 False (ulProps 0) ''Level 1'', ListNode 1 False (ulProps 20) ''Level 2'',
        ListNode 2 False (ulProps 40) ''Level 3'', ListNode 3 False (ulProps 60) ''Level 4'',
        ListNode 4 False (ulProps 80) ''Level 5'',
        ErrorP 5 ''Maximum nesting level reached'', ErrorP 6 ''Maximum nesting level reached'']"
    by code_simp
  have a: "list_ex isError (parse nestedList7 ceiling3)"
    using nesting_ceiling_error_node [where opts = ceiling3 and markdown = nestedList7
        and lines = "splitLines (trim nestedList7)"] h
    by blast
  have b: "\<exists>ns. parse nestedList7 ceiling3 = ns @ [ErrorP 5 nestingMessage, ErrorP 6 nestingMessage]
            \<and> length ns = 5 \<and> \<not> list_ex isError ns"
    using nesting_ceiling_error_node [where opts = ceiling3 and markdown = nestedList7
        and lines = "splitLines (trim nestedList7)"] h
    by blast
  have c: "run ceiling3 (splitLines (trim nestedList7)) [0..<Suc 5] initialState
        = push (ErrorP 5 nestingMessage) (run ceiling3 (splitLines (trim nestedList7)) [0..<5] initialState)"
    using nesting_ceiling_error_node [where opts = ceiling3 and k = 5
        and lines = "splitLines (trim nestedList7)"] nestedList7_state nestedList7_length
    by simp
  from e a b c show ?thesis by blast
qed

text \<open>
  C5. The one-line input \<^verbatim>\<open>| H1 | H2 |\<close> yields exactly one table node; its header has the
  two cells \<open>H1\<close> and \<open>H2\<close> and its body has no row. So it is with the default options, and
  with all options whose ceiling lets the first line be classified.
\<close>

theorem header_only_table:
  "parse ''| H1 | H2 |'' defaultOptions = [Table 0 noProps [(ALeft, ''H1''), (ALeft, ''H2'')] []]
   \<and> (0 \<le> maxNestingLevel opts
      \<longrightarrow> parse ''| H1 | H2 |'' opts
            = [Table 0 (getElementProperties opts tables []) [(ALeft, ''H1''), (ALeft, ''H2'')] []])"
proof (intro conjI impI)
  show "parse ''| H1 | H2 |'' defaultOptions = [Table 0 noProps [(ALeft, ''H1''), (ALeft, ''H2'')] []]"
    by code_simp
next
  assume h: "0 \<le> maxNestingLevel opts"
  have s: "skipLines initialState = 0" "\<not> maxNestingLevel opts < int (nestingLevel initialState)"
      "\<not> inCodeBlock initialState"
    using h by (simp_all add: initialState_def)
  have "processLine opts [''| H1 | H2 |''] ([''| H1 | H2 |''] ! 0) 0 initialState
      = push (tableNode opts [''| H1 | H2 |''] ([''| H1 | H2 |''] ! 0) 0) initialState"
    using s header_only_lines(2,3) by (intro table_header_step) (simp_all add: isDefinitionTerm_def)
  then show "parse ''| H1 | H2 |'' opts
            = [Table 0 (getElementProperties opts tables []) [(ALeft, ''H1''), (ALeft, ''H2'')] []]"
    by (simp add: parse_def header_only_lines(1) run_def header_only_node push_def initialState_def)
qed

theorem header_only_table_witness:
  "0 \<le> maxNestingLevel ceiling3
   \<and> parse ''| H1 | H2 |'' ceiling3
       = [Table 0 (getElementProperties ceiling3 tables []) [(ALeft, ''H1''), (ALeft, ''H2'')] []]"
proof -
  have h: "0 \<le> maxNestingLevel ceiling3"
    by (simp add: ceiling3_def defaultOptions_def)
  with header_only_table [of ceiling3] show ?thesis by blast
qed

text \<open>
  C6. The inline formatter maps \<^verbatim>\<open>***x***\<close> and \<^verbatim>\<open>___x___\<close> to the combined span
  \<^verbatim>\<open><strong><em>x</em></strong>\<close>, whatever the options: nothing of the result is wrapped a
  second time or left literal. In the list of substitutions the two triple rules (positions
  5 and 6) come before the bold rules (7 and 8) and the italic rules (9 and 10).
\<close>

theorem triple_emphasis:
  "processInlineFormatting opts ''***x***'' = ''<strong><em>x</em></strong>''
   \<and> processInlineFormatting opts ''___x___'' = ''<strong><em>x</em></strong>''
   \<and> map fst (replacements opts)
       = [delimited ''$'', delimited ''~~'', delimited ''^'', delimited ''~'', delimited ''=='',
          delimited ''***'', delimited ''___'', delimited ''**'', delimited ''__'',
          delimited ''*'', delimited ''_'', reInlineCode, reLink]"
proof -
  have "processInlineFormatting opts ''***x***'' = ''<strong><em>x</em></strong>''"
      "processInlineFormatting opts ''___x___'' = ''<strong><em>x</em></strong>''"
    by code_simp+
  then show ?thesis
    by (simp add: replacements_def)
qed



text \<open>
  C8, as claimed: \<open>parse\<close> of the empty string is empty with any options. The empty string
  is split into one empty line, and the nesting guard of lines 217-220 compares the initial
  level 0 with the ceiling before anything else: with a negative \<open>maxNestingLevel\<close> that
  line yields the error node.
\<close>

theorem parse_empty_negative_ceiling:
  "parse [] (defaultOptions \<lparr> maxNestingLevel := - 1 \<rparr>) = [ErrorP 0 ''Maximum nesting level reached'']"
  by code_simp

text \<open>
  C8, as amended: with any options whose \<open>maxNestingLevel\<close> is at least 0, \<open>parse\<close> of the
  empty string is the empty sequence.
\<close>

theorem parse_empty:
  "0 \<le> maxNestingLevel opts \<Longrightarrow> parse [] opts = []"
  by (simp add: parse_def trim_Nil run_def processLine_def initialState_def isDefinitionTerm_def
      tests_Nil paragraphRule_def processInlineFormatting_def)

theorem parse_empty_witness:
  "0 \<le> maxNestingLevel defaultOptions \<and> parse [] defaultOptions = []"
proof -
  have h: "0 \<le> maxNestingLevel defaultOptions"
    by (simp add: defaultOptions_def)
  from parse_empty [OF h] h show ?thesis by simp
qed

text \<open>
  C9. When a fence is open after the first \<open>k\<close> lines and no later line is a fence line:
  every later line that is buffered adds no node, and all that it changes is the buffer,
  which gets the line; the output behind the first \<open>k\<close> lines is made of the nodes of the
  lines that are not buffered, at most one for each, from a rule tried before the fence
  rules (nesting error, definition list, task, heading) and with the index of that line; no
  code-block node is among them and the fence is still open at the end. If every later line
  is buffered, nothing is added to the output and these lines end up in the buffer.
\<close>

theorem unclosed_fence_emits_no_code:
  assumes "lines = splitLines (trim markdown)" and "k \<le> length lines"
    and "st = run opts lines [0..<k] initialState" and "inCodeBlock st"
    and "\<forall>j. k \<le> j \<and> j < length lines \<longrightarrow> \<not> testStart reFence (trim (lines ! j))"
  shows "parse markdown opts
           = html st @ concat (map (emitted opts lines) (filter (\<lambda>j. \<not> buffered opts lines j) [k..<length lines]))
       \<and> (\<forall>j. k \<le> j \<and> j < length lines \<and> buffered opts lines j
              \<longrightarrow> emitted opts lines j = []
                  \<and> run opts lines [0..<Suc j] initialState
                      = (run opts lines [0..<j] initialState)
                          \<lparr> codeBlock := codeBlock (run opts lines [0..<j] initialState) @ [lines ! j] \<rparr>)
       \<and> (\<forall>j. k \<le> j \<and> j < length lines
              \<longrightarrow> length (emitted opts lines j) \<le> 1
                  \<and> list_all (\<lambda>n. beforeFence n \<and> nodeIndex n = j) (emitted opts lines j))
       \<and> (\<forall>i p c t. CodeBlock i p c t \<notin> set (drop (length (html st)) (parse markdown opts)))
       \<and> inCodeBlock (run opts lines [0..<length lines] initialState)
       \<and> ((\<forall>j. k \<le> j \<and> j < length lines \<longrightarrow> buffered opts lines j)
            \<longrightarrow> parse markdown opts = html st
                \<and> codeBlock (run opts lines [0..<length lines] initialState) = codeBlock st @ drop k lines)"
proof -
  have o: "inCodeBlock (run opts lines [0..<k] initialState)"
    using assms(3,4) by simp
  note s = open_fence_scan [OF o assms(5)]
  have p: "parse markdown opts = html (run opts lines [0..<length lines] initialState)"
    using assms(1) by (simp add: parse_def Let_def)
  have a: "parse markdown opts
           = html st @ concat (map (emitted opts lines) (filter (\<lambda>j. \<not> buffered opts lines j) [k..<length lines]))"
    using s(4) [OF assms(2)] p assms(3) by simp
  have b: "\<forall>j. k \<le> j \<and> j < length lines \<and> buffered opts lines j
              \<longrightarrow> emitted opts lines j = []
                  \<and> run opts lines [0..<Suc j] initialState
                      = (run opts lines [0..<j] initialState)
                          \<lparr> codeBlock := codeBlock (run opts lines [0..<j] initialState) @ [lines ! j] \<rparr>"
    using s(3) by blast
  have c: "\<forall>j. k \<le> j \<and> j < length lines
              \<longrightarrow> length (emitted opts lines j) \<le> 1
                  \<and> list_all (\<lambda>n. beforeFence n \<and> nodeIndex n = j) (emitted opts lines j)"
    using s(2) by blast
  have d: "\<forall>i p c t. CodeBlock i p c t \<notin> set (drop (length (html st)) (parse markdown opts))"
  proof (intro allI notI)
    fix i p q t
    assume "CodeBlock i p q t \<in> set (drop (length (html st)) (parse markdown opts))"
    then obtain j where "k \<le> j" "j < length lines" "CodeBlock i p q t \<in> set (emitted opts lines j)"
      unfolding a by auto
    then have "beforeFence (CodeBlock i p q t)"
      using c by (fastforce simp add: list_all_iff)
    then show False by simp
  qed
  have e: "inCodeBlock (run opts lines [0..<length lines] initialState)"
    using s(1) [OF assms(2)] by simp
  have f: "parse markdown opts = html st
         \<and> codeBlock (run opts lines [0..<length lines] initialState) = codeBlock st @ drop k lines"
    if h: "\<forall>j. k \<le> j \<and> j < length lines \<longrightarrow> buffered opts lines j"
  proof -
    have "filter (\<lambda>j. \<not> buffered opts lines j) [k..<length lines] = []"
      using h by (simp add: filter_empty_conv)
    then have "parse markdown opts = html st"
      using a by simp
    moreover have "codeBlock (run opts lines [0..<length lines] initialState) = codeBlock st @ drop k lines"
      using s(5) [OF assms(2) _ _ h] assms(3) by simp
    ultimately show ?thesis by simp
  qed
  from a b c d e f show ?thesis by blast
qed

theorem unclosed_fence_emits_no_code_witness:
  "inCodeBlock (run defaultOptions (splitLines (trim (''```js'' @ [LF] @ ''let x = 1;'' @ [LF] @ ''plain text'')))
                  [0..<1] initialState)
   \<and> buffered defaultOptions (splitLines (trim (''```js'' @ [LF] @ ''let x = 1;'' @ [LF] @ ''plain text''))) 1
   \<and> buffered defaultOptions (splitLines (trim (''```js'' @ [LF] @ ''let x = 1;'' @ [LF] @ ''plain text''))) 2
   \<and> emitted defaultOptions (splitLines (trim (''```js'' @ [LF] @ ''let x = 1;'' @ [LF] @ ''plain text''))) 1 = []
   \<and> parse (''```js'' @ [LF] @ ''let x = 1;'' @ [LF] @ ''plain text'') defaultOptions
       = html (run defaultOptions
                 (splitLines (trim (''```js'' @ [LF] @ ''let x = 1;'' @ [LF] @ ''plain text'')))
                 [0..<1] initialState)
   \<and> codeBlock (run defaultOptions (splitLines (trim (''```js'' @ [LF] @ ''let x = 1;'' @ [LF] @ ''plain text'')))
                  [0..<3] initialState)
       = [''let x = 1;'', ''plain text'']
   \<and> parse (''```js'' @ [LF] @ ''let x = 1;'' @ [LF] @ ''plain text'') defaultOptions = []
   \<and> parse (''```'' @ [LF] @ ''# h'' @ [LF] @ ''body'') defaultOptions
       = [Heading 1 1 Undefined noProps ''h'']"
proof -
  let ?md = "''```js'' @ [LF] @ ''let x = 1;'' @ [LF] @ ''plain text''"
  let ?lines = "splitLines (trim ?md)"
  have l: "?lines = [''```js'', ''let x = 1;'', ''plain text'']"
    by code_simp
  have o: "inCodeBlock (run defaultOptions ?lines [0..<1] initialState)"
    by code_simp
  have b: "buffered defaultOptions ?lines 1" "buffered defaultOptions ?lines 2"
    by code_simp+
  have c: "codeBlock (run defaultOptions ?lines [0..<1] initialState) = []"
    by code_simp
  have n: "\<forall>j. 1 \<le> j \<and> j < length ?lines \<longrightarrow> \<not> testStart reFence (trim (?lines ! j))"
  proof (intro allI impI)
    fix j assume "1 \<le> j \<and> j < length ?lines"
    then have "j = 1 \<or> j = 2" unfolding l by auto
    moreover have "\<not> testStart reFence (trim ''let x = 1;'')" "\<not> testStart reFence (trim ''plain text'')"
      by code_simp+
    ultimately show "\<not> testStart reFence (trim (?lines ! j))" unfolding l by auto
  qed
  have a: "\<forall>j. 1 \<le> j \<and> j < length ?lines \<longrightarrow> buffered defaultOptions ?lines j"
  proof (intro allI impI)
    fix j assume "1 \<le> j \<and> j < length ?lines"
    then have "j = 1 \<or> j = 2" unfolding l by auto
    then show "buffered defaultOptions ?lines j" using b by auto
  qed
  have k: "1 \<le> length ?lines" "1 < length ?lines" "length ?lines = 3" unfolding l by simp_all
  note t = unclosed_fence_emits_no_code [OF refl k(1) refl o n]
  have "emitted defaultOptions ?lines 1 = []"
    using t b(1) k(2) by blast
  moreover have "parse ?md defaultOptions = html (run defaultOptions ?lines [0..<1] initialState)"
    using t a by blast
  moreover have "codeBlock (run defaultOptions ?lines [0..<length ?lines] initialState)
      = codeBlock (run defaultOptions ?lines [0..<1] initialState) @ drop 1 ?lines"
    using t a by blast
  then have "codeBlock (run defaultOptions ?lines [0..<3] initialState) = [''let x = 1;'', ''plain text'']"
    unfolding c k(3) unfolding l by simp
  moreover have "parse ?md defaultOptions = []"
      "parse (''```'' @ [LF] @ ''# h'' @ [LF] @ ''body'') defaultOptions = [Heading 1 1 Undefined noProps ''h'']"
    by code_simp+
  ultimately show ?thesis using o b by blast
qed

text \<open>
  C10. Once the level is above the ceiling after the first \<open>k\<close> lines, every later line,
  blank or not, adds exactly one error node and nothing else, and the level is the same at
  the end of the scan.
\<close>

theorem nesting_error_persists:
  assumes "lines = splitLines (trim markdown)" and "k \<le> length lines"
    and "st = run opts lines [0..<k] initialState"
    and "maxNestingLevel opts < int (nestingLevel st)"
  shows "parse markdown opts = html st @ map (\<lambda>i. ErrorP i nestingMessage) [k..<length lines]
       \<and> nestingLevel (run opts lines [0..<length lines] initialState) = nestingLevel st"
proof -
  have "guarded opts st"
    using assms(3) guarded_run guarded_initial by simp
  then have s: "skipLines st = 0"
    using assms(4) by (simp add: guarded_def)
  have "run opts lines [0..<length lines] initialState = run opts lines [k..<length lines] st"
    using run_split [OF assms(2)] assms(3) by simp
  also have "\<dots> = st \<lparr> html := html st @ map (\<lambda>i. ErrorP i nestingMessage) [k..<length lines] \<rparr>"
    using s assms(4) by (rule run_errors)
  finally show ?thesis using assms(1) by (simp add: parse_def Let_def)
qed

theorem nesting_error_persists_witness:
  "parse (''- a'' @ [LF] @ ''    - b'' @ [LF] @ [LF] @ ''# h'') (defaultOptions \<lparr> maxNestingLevel := 1 \<rparr>)
     = html (run (defaultOptions \<lparr> maxNestingLevel := 1 \<rparr>)
               (splitLines (trim (''- a'' @ [LF] @ ''    - b'' @ [LF] @ [LF] @ ''# h''))) [0..<2] initialState)
       @ map (\<lambda>i. ErrorP i nestingMessage) [2..<4]
   \<and> parse (''- a'' @ [LF] @ ''    - b'' @ [LF] @ [LF] @ ''# h'') (defaultOptions \<lparr> maxNestingLevel := 1 \<rparr>)
     = [ListNode 0 False (ulProps 0) ''a'', ListNode 1 False (ulProps 40) ''b'',
        ErrorP 2 ''Maximum nesting level reached'', ErrorP 3 ''Maximum nesting level reached'']"
proof -
  let ?md = "''- a'' @ [LF] @ ''    - b'' @ [LF] @ [LF] @ ''# h''"
  let ?o = "defaultOptions \<lparr> maxNestingLevel := 1 \<rparr>"
  have n: "length (splitLines (trim ?md)) = 4"
    by code_simp
  then have k: "2 \<le> length (splitLines (trim ?md))"
    by simp
  have h: "maxNestingLevel ?o < int (nestingLevel (run ?o (splitLines (trim ?md)) [0..<2] initialState))"
    by code_simp
  have "parse ?md ?o
     = [ListNode 0 False (ulProps 0) ''a'', ListNode 1 False (ulProps 40) ''b'',
        ErrorP 2 ''Maximum nesting level reached'', ErrorP 3 ''Maximum nesting level reached'']"
    by code_simp
  then show ?thesis
    using nesting_error_persists [OF refl k refl h] n by simp
qed

end
